theory Spec2Isabelle
  imports Complex_Main
begin

section \<open>Data model of the notification store (toast.tsx)\<close>

text \<open>
  A JavaScript number that a caller hands in (a duration, an autopilot override) or that
  is computed from one is a \<open>number\<close>: NaN, an infinity, or a finite value, which is a
  \<open>real\<close> (no rounding). The constants of the source and the pixel measurements of the
  widget (\<open>scrollHeight\<close>, an integer) are finite and are plain reals. An optional
  property \<open>f?: T\<close> is a field of type \<open>T option\<close>, \<open>None\<close> when the property is
  absent; a property of type \<open>T | null\<close> uses \<open>nullable\<close>, so that an absent duration
  and an explicit \<open>null\<close> stay distinct values. A \<open>ReactNode\<close> is a string, an
  \<open>onClick\<close> handler is the number that names it.
\<close>

datatype number = NaN | NegInf | Fin real | PosInf

datatype SileoState = Success | Loading | Error | Warning | Info | Action

datatype ToastPosition =
  TopLeft | TopCenter | TopRight | BottomLeft | BottomCenter | BottomRight

datatype 'a nullable = Null | Val 'a

record SileoStyles =
  title_s :: "string option"
  description_s :: "string option"
  badge_s :: "string option"
  button_s :: "string option"

record SileoButton =
  title_b :: string
  onClick :: nat

datatype Autopilot = AutopilotBool bool | AutopilotCfg "number option" "number option"

record ToastOptions =
  title :: "string option"
  description :: "string option"
  position :: "ToastPosition option"
  duration :: "number nullable option"
  icon :: "string nullable option"
  styles :: "SileoStyles option"
  fill :: "string option"
  roundness :: "number option"
  autopilot :: "Autopilot option"
  button :: "SileoButton option"

record InternalToastOptions = ToastOptions +
  id_o :: "string option"
  state_o :: "SileoState option"

text \<open>
  \<open>ToastItem\<close> extends \<open>InternalToastOptions\<close> in the source and makes \<open>id\<close>
  mandatory; here it extends \<open>ToastOptions\<close> and declares \<open>id_t\<close> (a string) and
  \<open>state_t\<close> itself. An absent \<open>exiting\<close> is \<open>False\<close>: the source only ever tests
  its truthiness.
\<close>

record ToastItem = ToastOptions +
  id_t :: string
  state_t :: "SileoState option"
  instanceId :: string
  exiting :: bool
  autoExpandDelayMs :: "number option"
  autoCollapseDelayMs :: "number option"

subsection \<open>Constants\<close>

definition DEFAULT_DURATION :: real where
  "DEFAULT_DURATION = 6000"

definition EXIT_DURATION :: real where
  "EXIT_DURATION = DEFAULT_DURATION * 0.1"

definition AUTO_EXPAND_DELAY :: real where
  "AUTO_EXPAND_DELAY = DEFAULT_DURATION * 0.025"

definition AUTO_COLLAPSE_DELAY :: real where
  "AUTO_COLLAPSE_DELAY = DEFAULT_DURATION - 2000"

subsection \<open>JavaScript operators used by the store\<close>

text \<open>
  \<open>a <= b\<close> and \<open>a < b\<close> on numbers: false as soon as one side is NaN. \<open>Math.max\<close>
  and \<open>Math.min\<close>: NaN as soon as one argument is NaN. \<open>!a\<close> on a number: true for 0
  and for NaN.
\<close>

fun js_le :: "number \<Rightarrow> number \<Rightarrow> bool" where
  "js_le NaN b = False"
| "js_le a NaN = False"
| "js_le NegInf b = True"
| "js_le a PosInf = True"
| "js_le (Fin a) (Fin b) = (a \<le> b)"
| "js_le a b = False"

fun js_lt :: "number \<Rightarrow> number \<Rightarrow> bool" where
  "js_lt NaN b = False"
| "js_lt a NaN = False"
| "js_lt PosInf b = False"
| "js_lt a NegInf = False"
| "js_lt (Fin a) (Fin b) = (a < b)"
| "js_lt a b = True"

definition Math_max :: "number \<Rightarrow> number \<Rightarrow> number" where
  "Math_max a b = (if a = NaN \<or> b = NaN then NaN else if js_le a b then b else a)"

definition Math_min :: "number \<Rightarrow> number \<Rightarrow> number" where
  "Math_min a b = (if a = NaN \<or> b = NaN then NaN else if js_le a b then a else b)"

definition falsy :: "number \<Rightarrow> bool" where
  "falsy a = (a = Fin 0 \<or> a = NaN)"

text \<open>\<open>a ?? b\<close> on an optional property: the left operand unless it is absent.\<close>

definition nullish :: "'a option \<Rightarrow> 'a \<Rightarrow> 'a" where
  "nullish a b = (case a of Some v \<Rightarrow> v | None \<Rightarrow> b)"

text \<open>\<open>a ?? b\<close> on an optional, nullable property: absent and \<open>null\<close> both give \<open>b\<close>.\<close>

definition nullish_null :: "'a nullable option \<Rightarrow> 'a \<Rightarrow> 'a" where
  "nullish_null a b = (case a of Some (Val v) \<Rightarrow> v | Some Null \<Rightarrow> b | None \<Rightarrow> b)"

text \<open>Object spread of one property: the later object wins where it has the property.\<close>

definition spread :: "'a option \<Rightarrow> 'a option \<Rightarrow> 'a option" where
  "spread base over = (case over of Some v \<Rightarrow> Some v | None \<Rightarrow> base)"

text \<open>Truthiness of an optional string: absent and the empty string are falsy.\<close>

definition truthy :: "string option \<Rightarrow> bool" where
  "truthy s = (case s of Some v \<Rightarrow> v \<noteq> [] | None \<Rightarrow> False)"

text \<open>\<open>Array.prototype.find\<close>: the first element that satisfies the predicate.\<close>

fun find_first :: "('a \<Rightarrow> bool) \<Rightarrow> 'a list \<Rightarrow> 'a option" where
  "find_first p [] = None"
| "find_first p (x # xs) = (if p x then Some x else find_first p xs)"

text \<open>\<open>live[live.length - 1]\<close>: \<open>undefined\<close> on the empty array.\<close>

definition last_opt :: "'a list \<Rightarrow> 'a option" where
  "last_opt xs = (case rev xs of [] \<Rightarrow> None | x # _ \<Rightarrow> Some x)"

subsection \<open>Identifiers\<close>

text \<open>
  \<open>generateId\<close> increments the module counter and joins it, in decimal, with the
  base-36 renderings of \<open>Date.now()\<close> and of six digits of \<open>Math.random()\<close>. The
  two renderings are inputs of the model.
\<close>

record Entropy =
  now36 :: string
  random36 :: string

definition digit10 :: "nat \<Rightarrow> char" where
  "digit10 d = char_of (48 + d)"

fun toString10 :: "nat \<Rightarrow> string" where
  "toString10 n = (if n < 10 then [digit10 n] else toString10 (n div 10) @ [digit10 (n mod 10)])"

definition generateId :: "nat \<Rightarrow> Entropy \<Rightarrow> string \<times> nat" where
  "generateId idCounter e =
     (toString10 (Suc idCounter) @ ''-'' @ now36 e @ ''-'' @ random36 e, Suc idCounter)"

definition timeoutKey :: "ToastItem \<Rightarrow> string" where
  "timeoutKey t = id_t t @ '':'' @ instanceId t"

subsection \<open>Autopilot delays\<close>

record AutoDelays =
  expandDelayMs :: "number option"
  collapseDelayMs :: "number option"

definition clamp :: "number \<Rightarrow> number \<Rightarrow> number" where
  "clamp dur v = Math_min dur (Math_max (Fin 0) v)"

text \<open>
  \<open>resolveAutopilot(opts, duration)\<close>. \<open>!duration\<close> holds for \<open>null\<close>, for 0 and for
  NaN; \<open>typeof opts.autopilot === "object"\<close> selects the configuration object.
\<close>

definition resolveAutopilot :: "InternalToastOptions \<Rightarrow> number option \<Rightarrow> AutoDelays" where
  "resolveAutopilot opts dur =
     (case dur of
        None \<Rightarrow> \<lparr>expandDelayMs = None, collapseDelayMs = None\<rparr>
      | Some d \<Rightarrow>
          if autopilot opts = Some (AutopilotBool False) \<or> falsy d \<or> js_le d (Fin 0)
          then \<lparr>expandDelayMs = None, collapseDelayMs = None\<rparr>
          else
            let cfgExpand = (case autopilot opts of Some (AutopilotCfg e c) \<Rightarrow> e | _ \<Rightarrow> None);
                cfgCollapse = (case autopilot opts of Some (AutopilotCfg e c) \<Rightarrow> c | _ \<Rightarrow> None)
            in \<lparr>expandDelayMs = Some (clamp d (nullish cfgExpand (Fin AUTO_EXPAND_DELAY))),
                collapseDelayMs = Some (clamp d (nullish cfgCollapse (Fin AUTO_COLLAPSE_DELAY)))\<rparr>)"

section \<open>The store, the browser's timers and the mounted viewport\<close>

text \<open>
  One \<open>Toaster\<close> is mounted and subscribed. The state holds the module-level store
  (\<open>toasts\<close>, \<open>store_position\<close>, \<open>store_options\<close>, \<open>idCounter\<close>), the browser's table
  of pending timeouts (\<open>pending\<close>, with the next handle \<open>setTimeout\<close> returns) and the
  refs of the viewport (\<open>hoverRef\<close>, \<open>timersRef\<close>, \<open>listRef\<close>). \<open>timersRef\<close> is a
  JavaScript \<open>Map\<close> from timeout key to timer handle, kept as an association list in
  insertion order. A timeout records the delay that was passed to \<open>setTimeout\<close> and what
  its callback does.
\<close>

datatype Callback = DismissCb string | RemoveCb string

record Timer =
  handle :: nat
  delay :: number
  callback :: Callback

record World =
  toasts :: "ToastItem list"
  store_position :: ToastPosition
  store_options :: "ToastOptions option"
  idCounter :: nat
  pending :: "Timer list"
  nextHandle :: nat
  hoverRef :: bool
  timersRef :: "(string \<times> nat) list"
  listRef :: "ToastItem list"

definition setTimeout :: "Callback \<Rightarrow> number \<Rightarrow> World \<Rightarrow> nat \<times> World" where
  "setTimeout cb ms w =
     (nextHandle w,
      w\<lparr>pending := pending w @ [\<lparr>handle = nextHandle w, delay = ms, callback = cb\<rparr>],
        nextHandle := Suc (nextHandle w)\<rparr>)"

definition clearTimeout :: "nat \<Rightarrow> World \<Rightarrow> World" where
  "clearTimeout h w = w\<lparr>pending := filter (\<lambda>t. handle t \<noteq> h) (pending w)\<rparr>"

subsection \<open>Viewport: scheduling of dismiss timers\<close>

text \<open>\<open>clearAllTimers\<close>: clear every handle held in \<open>timersRef\<close>, then empty the map.\<close>

definition clearAllTimers :: "World \<Rightarrow> World" where
  "clearAllTimers w = (fold clearTimeout (map snd (timersRef w)) w)\<lparr>timersRef := []\<rparr>"

text \<open>
  One iteration of the loop of \<open>schedule\<close>. After \<open>item.duration ?? DEFAULT_DURATION\<close>
  the value \<open>dur\<close> is a number, so of the test \<open>dur === null || dur <= 0\<close> only the
  second disjunct can hold; it is false for NaN, which is then passed to \<open>setTimeout\<close>.
\<close>

definition schedule_item :: "ToastItem \<Rightarrow> World \<Rightarrow> World" where
  "schedule_item item w =
     (if exiting item then w
      else let key = timeoutKey item in
        if key \<in> fst ` set (timersRef w) then w
        else let dur = nullish_null (duration item) (Fin DEFAULT_DURATION) in
          if js_le dur (Fin 0) then w
          else let (h, w') = setTimeout (DismissCb (id_t item)) dur w
               in w'\<lparr>timersRef := timersRef w' @ [(key, h)]\<rparr>)"

definition schedule :: "ToastItem list \<Rightarrow> World \<Rightarrow> World" where
  "schedule items w = (if hoverRef w then w else fold schedule_item items w)"

text \<open>
  The effect of the viewport that runs when \<open>toasts\<close> changes: remember the list,
  clear and forget the timers whose key no toast has any more, schedule the rest.
\<close>

definition drop_stale :: "string list \<Rightarrow> string \<times> nat \<Rightarrow> World \<Rightarrow> World" where
  "drop_stale toastKeys kt w =
     (if fst kt \<notin> set toastKeys
      then (clearTimeout (snd kt) w)\<lparr>timersRef := filter (\<lambda>e. fst e \<noteq> fst kt) (timersRef w)\<rparr>
      else w)"

definition timers_effect :: "World \<Rightarrow> World" where
  "timers_effect w =
     (let w1 = w\<lparr>listRef := toasts w\<rparr>;
          toastKeys = map timeoutKey (toasts w);
          w2 = fold (drop_stale toastKeys) (timersRef w1) w1
      in schedule (toasts w) w2)"

text \<open>
  \<open>store.update(fn)\<close>: replace the sequence and notify the subscribers. The subscriber
  is the viewport's listener, whose \<open>setToasts\<close> makes the effect above run on the new
  sequence; the model runs it at once.
\<close>

definition store_update :: "(ToastItem list \<Rightarrow> ToastItem list) \<Rightarrow> World \<Rightarrow> World" where
  "store_update fn w = timers_effect (w\<lparr>toasts := fn (toasts w)\<rparr>)"

definition handleMouseEnter :: "World \<Rightarrow> World" where
  "handleMouseEnter w = (if hoverRef w then w else clearAllTimers (w\<lparr>hoverRef := True\<rparr>))"

definition handleMouseLeave :: "World \<Rightarrow> World" where
  "handleMouseLeave w =
     (if \<not> hoverRef w then w else (let w1 = w\<lparr>hoverRef := False\<rparr> in schedule (listRef w1) w1))"

subsection \<open>Toast API\<close>

definition dismissToast :: "string \<Rightarrow> World \<Rightarrow> World" where
  "dismissToast i w =
     (case find_first (\<lambda>t. id_t t = i) (toasts w) of
        None \<Rightarrow> w
      | Some item \<Rightarrow>
          if exiting item then w
          else
            let w1 = store_update (map (\<lambda>t. if id_t t = i then t\<lparr>exiting := True\<rparr> else t)) w
            in snd (setTimeout (RemoveCb i) (Fin EXIT_DURATION) w1))"

text \<open>
  \<open>{...store.options, ...options, styles: {...store.options?.styles, ...options.styles}}\<close>.
  The store's default options have no \<open>id\<close> and no \<open>state\<close>.
\<close>

definition empty_styles :: SileoStyles where
  "empty_styles = \<lparr>title_s = None, description_s = None, badge_s = None, button_s = None\<rparr>"

definition spread_styles :: "SileoStyles option \<Rightarrow> SileoStyles option \<Rightarrow> SileoStyles" where
  "spread_styles base over =
     (let b = nullish base empty_styles; v = nullish over empty_styles
      in \<lparr>title_s = spread (title_s b) (title_s v),
          description_s = spread (description_s b) (description_s v),
          badge_s = spread (badge_s b) (badge_s v),
          button_s = spread (button_s b) (button_s v)\<rparr>)"

definition empty_options :: ToastOptions where
  "empty_options =
     \<lparr>title = None, description = None, position = None, duration = None, icon = None,
      styles = None, fill = None, roundness = None, autopilot = None, button = None\<rparr>"

definition merge_options :: "ToastOptions option \<Rightarrow> InternalToastOptions \<Rightarrow> InternalToastOptions" where
  "merge_options store_opts options =
     (let so = nullish store_opts empty_options
      in \<lparr>title = spread (title so) (title options),
          description = spread (description so) (description options),
          position = spread (position so) (position options),
          duration = spread (duration so) (duration options),
          icon = spread (icon so) (icon options),
          styles = Some (spread_styles (styles so) (styles options)),
          fill = spread (fill so) (fill options),
          roundness = spread (roundness so) (roundness options),
          autopilot = spread (autopilot so) (autopilot options),
          button = spread (button so) (button options),
          id_o = id_o options,
          state_o = state_o options\<rparr>)"

text \<open>The object literal \<open>{...merged, id, instanceId, position, autoExpandDelayMs, autoCollapseDelayMs}\<close>.\<close>

definition build_item ::
  "InternalToastOptions \<Rightarrow> string \<Rightarrow> string \<Rightarrow> ToastPosition \<Rightarrow> AutoDelays \<Rightarrow> ToastItem" where
  "build_item merged i inst pos auto =
     \<lparr>title = title merged, description = description merged, position = Some pos,
      duration = duration merged, icon = icon merged, styles = styles merged,
      fill = fill merged, roundness = roundness merged, autopilot = autopilot merged,
      button = button merged,
      id_t = i, state_t = state_o merged, instanceId = inst, exiting = False,
      autoExpandDelayMs = expandDelayMs auto, autoCollapseDelayMs = collapseDelayMs auto\<rparr>"

text \<open>
  \<open>createToast\<close> returns \<open>{id, duration}\<close>; the model returns them with the new state.
  \<open>e1\<close> feeds the \<open>generateId()\<close> of the stable id, evaluated only when neither
  \<open>merged.id\<close> nor \<open>prev\<close> gives one, \<open>e2\<close> the one of the instance id.
\<close>

definition createToast ::
  "InternalToastOptions \<Rightarrow> Entropy \<Rightarrow> Entropy \<Rightarrow> World \<Rightarrow> (string \<times> number) \<times> World" where
  "createToast options e1 e2 w =
     (let live = filter (\<lambda>t. \<not> exiting t) (toasts w);
          merged = merge_options (store_options w) options;
          prev = (if truthy (id_o merged)
                  then find_first (\<lambda>t. Some (id_t t) = id_o merged) live
                  else last_opt live);
          (i, c1) = (case id_o merged of
                       Some v \<Rightarrow> (v, idCounter w)
                     | None \<Rightarrow> (case prev of
                                  Some p \<Rightarrow> (id_t p, idCounter w)
                                | None \<Rightarrow> generateId (idCounter w) e1));
          (inst, c2) = generateId c1 e2;
          dur = nullish_null (duration merged) (Fin DEFAULT_DURATION);
          auto = resolveAutopilot merged (Some dur);
          pos = nullish (position merged)
                  (nullish (case prev of Some p \<Rightarrow> position p | None \<Rightarrow> None) (store_position w));
          item = build_item merged i inst pos auto
      in ((i, dur), store_update (\<lambda>_. [item]) (w\<lparr>idCounter := c2\<rparr>)))"

definition updateToast :: "string \<Rightarrow> InternalToastOptions \<Rightarrow> Entropy \<Rightarrow> World \<Rightarrow> World" where
  "updateToast i options e w =
     (case find_first (\<lambda>t. id_t t = i) (toasts w) of
        None \<Rightarrow> w
      | Some existing \<Rightarrow>
          let merged = merge_options (store_options w) options;
              (inst, c) = generateId (idCounter w) e;
              dur = nullish_null (duration merged) (Fin DEFAULT_DURATION);
              auto = resolveAutopilot merged (Some dur);
              pos = nullish (position merged) (nullish (position existing) (store_position w));
              item = build_item merged i inst pos auto
          in store_update (map (\<lambda>t. if id_t t = i then item else t)) (w\<lparr>idCounter := c\<rparr>))"

definition clear :: "ToastPosition option \<Rightarrow> World \<Rightarrow> World" where
  "clear pos w =
     store_update (\<lambda>prev. case pos of
                            Some p \<Rightarrow> filter (\<lambda>t. position t \<noteq> Some p) prev
                          | None \<Rightarrow> []) w"

text \<open>
  The public creators. \<open>show\<close> passes the options on as they are, the others add
  \<open>state\<close>; none of them passes an \<open>id\<close>.
\<close>

definition internal :: "ToastOptions \<Rightarrow> string option \<Rightarrow> SileoState option \<Rightarrow> InternalToastOptions" where
  "internal opts i st =
     \<lparr>title = title opts, description = description opts, position = position opts,
      duration = duration opts, icon = icon opts, styles = styles opts, fill = fill opts,
      roundness = roundness opts, autopilot = autopilot opts, button = button opts,
      id_o = i, state_o = st\<rparr>"

definition sileo_show :: "ToastOptions \<Rightarrow> Entropy \<Rightarrow> Entropy \<Rightarrow> World \<Rightarrow> string \<times> World" where
  "sileo_show opts e1 e2 w = (let (r, w') = createToast (internal opts None None) e1 e2 w in (fst r, w'))"

definition sileo_success :: "ToastOptions \<Rightarrow> Entropy \<Rightarrow> Entropy \<Rightarrow> World \<Rightarrow> string \<times> World" where
  "sileo_success opts e1 e2 w =
     (let (r, w') = createToast (internal opts None (Some Success)) e1 e2 w in (fst r, w'))"

definition sileo_error :: "ToastOptions \<Rightarrow> Entropy \<Rightarrow> Entropy \<Rightarrow> World \<Rightarrow> string \<times> World" where
  "sileo_error opts e1 e2 w =
     (let (r, w') = createToast (internal opts None (Some Error)) e1 e2 w in (fst r, w'))"

definition sileo_warning :: "ToastOptions \<Rightarrow> Entropy \<Rightarrow> Entropy \<Rightarrow> World \<Rightarrow> string \<times> World" where
  "sileo_warning opts e1 e2 w =
     (let (r, w') = createToast (internal opts None (Some Warning)) e1 e2 w in (fst r, w'))"

definition sileo_info :: "ToastOptions \<Rightarrow> Entropy \<Rightarrow> Entropy \<Rightarrow> World \<Rightarrow> string \<times> World" where
  "sileo_info opts e1 e2 w =
     (let (r, w') = createToast (internal opts None (Some Info)) e1 e2 w in (fst r, w'))"

definition sileo_action :: "ToastOptions \<Rightarrow> Entropy \<Rightarrow> Entropy \<Rightarrow> World \<Rightarrow> string \<times> World" where
  "sileo_action opts e1 e2 w =
     (let (r, w') = createToast (internal opts None (Some Action)) e1 e2 w in (fst r, w'))"

subsection \<open>Timers firing\<close>

text \<open>
  A pending timeout fires: the browser drops it from its table and runs the callback,
  \<open>dismissToast(item.id)\<close> for a dismiss timer and the removal
  \<open>store.update(prev => prev.filter(t => t.id !== id))\<close> for an exit timer.
\<close>

definition fire :: "nat \<Rightarrow> World \<Rightarrow> World" where
  "fire h w =
     (case find_first (\<lambda>t. handle t = h) (pending w) of
        None \<Rightarrow> w
      | Some t \<Rightarrow>
          let w1 = w\<lparr>pending := filter (\<lambda>t. handle t \<noteq> h) (pending w)\<rparr>
          in (case callback t of
                DismissCb i \<Rightarrow> dismissToast i w1
              | RemoveCb i \<Rightarrow> store_update (filter (\<lambda>t. id_t t \<noteq> i)) w1))"

subsection \<open>Promise-driven notifications\<close>

text \<open>
  The promise is given by how it settles. \<open>sileo.promise\<close> creates the loading record
  and attaches \<open>p.then(...).catch(...)\<close> at once (\<open>promise_begin\<close>); the handlers run
  when the promise settles (\<open>promise_settle\<close>), which returns the outcome of \<open>p\<close>
  itself, the promise handed back to the caller, beside the outcome of the chain. The
  option functions of the caller are total functions: one that throws is not modelled.
\<close>

datatype ('a, 'e) Settled = Fulfilled 'a | Rejected 'e

datatype 'a OptionsOrFn = Static ToastOptions | Computed "'a \<Rightarrow> ToastOptions"

record LoadingOptions =
  title_l :: "string option"
  icon_l :: "string nullable option"

record ('a, 'e) ToastPromiseOptions =
  loading :: LoadingOptions
  success :: "'a OptionsOrFn"
  error :: "'e OptionsOrFn"
  action :: "'a OptionsOrFn option"

definition resolve_options :: "'a OptionsOrFn \<Rightarrow> 'a \<Rightarrow> ToastOptions" where
  "resolve_options o_f x = (case o_f of Static opts \<Rightarrow> opts | Computed f \<Rightarrow> f x)"

definition promise_begin ::
  "('a, 'e) ToastPromiseOptions \<Rightarrow> Entropy \<Rightarrow> Entropy \<Rightarrow> World \<Rightarrow> string \<times> World" where
  "promise_begin opts e1 e2 w =
     (let (r, w') =
            createToast
              \<lparr>title = title_l (loading opts), description = None, position = None,
               duration = Some Null, icon = icon_l (loading opts), styles = None, fill = None,
               roundness = None, autopilot = None, button = None,
               id_o = None, state_o = Some Loading\<rparr> e1 e2 w
      in (fst r, w'))"

definition on_fulfilled ::
  "('a, 'e) ToastPromiseOptions \<Rightarrow> string \<Rightarrow> Entropy \<Rightarrow> 'a \<Rightarrow> World \<Rightarrow> World" where
  "on_fulfilled opts i e data w =
     (case action opts of
        Some a \<Rightarrow> updateToast i (internal (resolve_options a data) (Some i) (Some Action)) e w
      | None \<Rightarrow>
          updateToast i (internal (resolve_options (success opts) data) (Some i) (Some Success)) e w)"

definition on_rejected ::
  "('a, 'e) ToastPromiseOptions \<Rightarrow> string \<Rightarrow> Entropy \<Rightarrow> 'e \<Rightarrow> World \<Rightarrow> World" where
  "on_rejected opts i e err w =
     updateToast i (internal (resolve_options (error opts) err) (Some i) (Some Error)) e w"

definition then_p ::
  "('a, 'e) Settled \<Rightarrow> ('a \<Rightarrow> World \<Rightarrow> World) \<Rightarrow> World \<Rightarrow> (unit, 'e) Settled \<times> World" where
  "then_p p f w = (case p of Fulfilled x \<Rightarrow> (Fulfilled (), f x w) | Rejected err \<Rightarrow> (Rejected err, w))"

definition catch_p ::
  "(unit, 'e) Settled \<Rightarrow> ('e \<Rightarrow> World \<Rightarrow> World) \<Rightarrow> World \<Rightarrow> (unit, 'e) Settled \<times> World" where
  "catch_p p g w = (case p of Fulfilled x \<Rightarrow> (Fulfilled x, w) | Rejected err \<Rightarrow> (Fulfilled (), g err w))"

definition promise_settle ::
  "('a, 'e) ToastPromiseOptions \<Rightarrow> string \<Rightarrow> ('a, 'e) Settled \<Rightarrow> Entropy \<Rightarrow> World
     \<Rightarrow> ('a, 'e) Settled \<times> (unit, 'e) Settled \<times> World" where
  "promise_settle opts i p e w =
     (let (r1, w1) = then_p p (on_fulfilled opts i e) w;
          (r2, w2) = catch_p r1 (on_rejected opts i e) w1
      in (p, r2, w2))"

subsection \<open>Reachable states\<close>

text \<open>
  The viewport mounts on the empty store; its mount effect writes its \<open>position\<close> and
  \<open>options\<close> props into the store (\<open>Props\<close> when they change later). Every later state
  comes from a call of the API, a pointer entering or leaving a notification, or a
  pending timeout firing, in any order.
\<close>

definition initial :: "ToastPosition \<Rightarrow> ToastOptions option \<Rightarrow> World" where
  "initial pos opts =
     \<lparr>toasts = [], store_position = pos, store_options = opts, idCounter = 0,
      pending = [], nextHandle = 1, hoverRef = False, timersRef = [], listRef = []\<rparr>"

datatype Event =
    Create InternalToastOptions Entropy Entropy
  | Update string InternalToastOptions Entropy
  | Dismiss string
  | Clear "ToastPosition option"
  | MouseEnter
  | MouseLeave
  | Fire nat
  | Props ToastPosition "ToastOptions option"

fun step :: "Event \<Rightarrow> World \<Rightarrow> World" where
  "step (Create options e1 e2) w = snd (createToast options e1 e2 w)"
| "step (Update i options e) w = updateToast i options e w"
| "step (Dismiss i) w = dismissToast i w"
| "step (Clear pos) w = clear pos w"
| "step MouseEnter w = handleMouseEnter w"
| "step MouseLeave w = handleMouseLeave w"
| "step (Fire h) w = fire h w"
| "step (Props pos opts) w = w\<lparr>store_position := pos, store_options := opts\<rparr>"

inductive reachable :: "World \<Rightarrow> bool" where
  reachable_initial: "reachable (initial pos opts)"
| reachable_step: "reachable w \<Longrightarrow> reachable (step ev w)"

text \<open>
  The pending dismiss timers that the viewport holds under a timeout key: those whose
  handle \<open>timersRef\<close> maps the key to.
\<close>

definition is_dismiss :: "Timer \<Rightarrow> bool" where
  "is_dismiss t = (case callback t of DismissCb i \<Rightarrow> True | RemoveCb i \<Rightarrow> False)"

definition timers_for :: "string \<Rightarrow> World \<Rightarrow> Timer list" where
  "timers_for key w =
     filter (\<lambda>t. is_dismiss t \<and> (key, handle t) \<in> set (timersRef w)) (pending w)"

text \<open>The duration \<open>schedule\<close> resolves for an item.\<close>

definition item_duration :: "ToastItem \<Rightarrow> number" where
  "item_duration t = nullish_null (duration t) (Fin DEFAULT_DURATION)"

section \<open>The notification widget (sileo.tsx)\<close>

text \<open>
  The component's props, its React state and its refs. \<open>next_p\<close> is the memoised view \<open>next\<close>
  built from the props, with their defaults applied. A timer ref holds the delay of
  the timeout while it is pending and \<open>None\<close> once it is cleared or has fired.
  \<open>Boolean(view.description)\<close> is false for an absent and for an empty description.
\<close>

record View =
  title_v :: "string option"
  description_v :: "string option"
  state_v :: SileoState
  icon_v :: "string nullable option"
  styles_v :: "SileoStyles option"
  button_v :: "SileoButton option"
  fill_v :: string

record SileoProps =
  id_p :: string
  next_p :: View
  exiting_p :: bool
  autoExpandDelayMs_p :: "number option"
  autoCollapseDelayMs_p :: "number option"
  canExpand :: "bool option"
  interruptKey :: "string option"
  refreshKey :: "string option"

record Widget =
  props :: SileoProps
  view :: View
  applied :: "string option"
  isExpanded :: bool
  contentHeight :: real
  frozenExpandedRef :: real
  lastRefreshKeyRef :: "string option"
  pendingRef :: "(string option \<times> View) option"
  swapTimerRef :: bool
  autoExpandRef :: "number option"
  autoCollapseRef :: "number option"

definition HEIGHT :: real where
  "HEIGHT = 40"

definition MIN_EXPAND_RATIO :: real where
  "MIN_EXPAND_RATIO = 2.25"

definition hasDesc :: "Widget \<Rightarrow> bool" where
  "hasDesc w = (truthy (description_v (view w)) \<or> button_v (view w) \<noteq> None)"

definition isLoading :: "Widget \<Rightarrow> bool" where
  "isLoading w = (state_v (view w) = Loading)"

text \<open>The source's \<open>open\<close>.\<close>

definition open_w :: "Widget \<Rightarrow> bool" where
  "open_w w = (hasDesc w \<and> isExpanded w \<and> \<not> isLoading w)"

definition allowExpand :: "Widget \<Rightarrow> bool" where
  "allowExpand w =
     (if isLoading w then False
      else (case canExpand (props w) of
              Some b \<Rightarrow> b
            | None \<Rightarrow> \<not> truthy (interruptKey (props w)) \<or> interruptKey (props w) = Some (id_p (props w))))"

definition minExpanded :: real where
  "minExpanded = HEIGHT * MIN_EXPAND_RATIO"

definition rawExpanded :: "Widget \<Rightarrow> real" where
  "rawExpanded w = (if hasDesc w then max minExpanded (HEIGHT + contentHeight w) else minExpanded)"

text \<open>The write to \<open>frozenExpandedRef\<close> in the body of the component, at every render.\<close>

definition render :: "Widget \<Rightarrow> Widget" where
  "render w = (if open_w w then w\<lparr>frozenExpandedRef := rawExpanded w\<rparr> else w)"


text \<open>The first render: \<open>useState\<close> and \<open>useRef\<close> take their initial values.\<close>

definition mount :: "SileoProps \<Rightarrow> Widget" where
  "mount p =
     (let w = \<lparr>props = p, view = next_p p, applied = refreshKey p, isExpanded = False,
               contentHeight = 0, frozenExpandedRef = 0, lastRefreshKeyRef = refreshKey p,
               pendingRef = None, swapTimerRef = False, autoExpandRef = None,
               autoCollapseRef = None\<rparr>
      in w\<lparr>frozenExpandedRef := rawExpanded w\<rparr>)"

definition handleEnter :: "Widget \<Rightarrow> Widget" where
  "handleEnter w = (if hasDesc w then w\<lparr>isExpanded := True\<rparr> else w)"

definition handleLeave :: "Widget \<Rightarrow> Widget" where
  "handleLeave w = w\<lparr>isExpanded := False\<rparr>"

text \<open>The layout effect that measures the content: no description, height 0.\<close>

definition measure_content :: "real \<Rightarrow> Widget \<Rightarrow> Widget" where
  "measure_content h w = (if \<not> hasDesc w then w\<lparr>contentHeight := 0\<rparr> else w\<lparr>contentHeight := h\<rparr>)"

text \<open>The refresh effect, run with the props of the render it belongs to.\<close>

definition refresh_effect :: "Widget \<Rightarrow> Widget" where
  "refresh_effect w =
     (case refreshKey (props w) of
        None \<Rightarrow> w\<lparr>view := next_p (props w), applied := None, pendingRef := None,
                  lastRefreshKeyRef := None\<rparr>
      | Some k \<Rightarrow>
          if lastRefreshKeyRef w = Some k then w
          else
            let w1 = w\<lparr>lastRefreshKeyRef := Some k, swapTimerRef := False\<rparr>
            in if open_w w
               then w1\<lparr>pendingRef := Some (Some k, next_p (props w)), isExpanded := False,
                       swapTimerRef := True\<rparr>
               else w1\<lparr>pendingRef := None, view := next_p (props w), applied := Some k\<rparr>)"

text \<open>The swap timer fires after \<open>SWAP_COLLAPSE_MS\<close>.\<close>

definition swap_timer :: "Widget \<Rightarrow> Widget" where
  "swap_timer w =
     (if \<not> swapTimerRef w then w
      else let w1 = w\<lparr>swapTimerRef := False\<rparr>
           in (case pendingRef w1 of
                 None \<Rightarrow> w1
               | Some pd \<Rightarrow> w1\<lparr>view := snd pd, applied := fst pd, pendingRef := None\<rparr>))"

definition handleTransitionEnd :: "string \<Rightarrow> Widget \<Rightarrow> Widget" where
  "handleTransitionEnd propertyName w =
     (if propertyName \<noteq> ''height'' \<and> propertyName \<noteq> ''transform'' then w
      else if open_w w then w
      else (case pendingRef w of
              None \<Rightarrow> w
            | Some pd \<Rightarrow> w\<lparr>swapTimerRef := False, view := snd pd, applied := fst pd,
                           pendingRef := None\<rparr>))"

text \<open>
  The auto expand/collapse effect. React runs the cleanup of the previous run first,
  which clears both timers; a run that returned no cleanup left none pending.
\<close>

definition auto_effect :: "Widget \<Rightarrow> Widget" where
  "auto_effect w =
     (let w0 = w\<lparr>autoExpandRef := None, autoCollapseRef := None\<rparr>
      in if \<not> hasDesc w0 then w0
         else if exiting_p (props w0) \<or> \<not> allowExpand w0 then w0\<lparr>isExpanded := False\<rparr>
         else if autoExpandDelayMs_p (props w0) = None \<and> autoCollapseDelayMs_p (props w0) = None
         then w0
         else
           let expandDelay = nullish (autoExpandDelayMs_p (props w0)) (Fin 0);
               collapseDelay = nullish (autoCollapseDelayMs_p (props w0)) (Fin 0);
               w1 = (if js_lt (Fin 0) expandDelay then w0\<lparr>autoExpandRef := Some expandDelay\<rparr>
                     else w0\<lparr>isExpanded := True\<rparr>)
           in if js_lt (Fin 0) collapseDelay then w1\<lparr>autoCollapseRef := Some collapseDelay\<rparr>
              else w1)"

definition auto_expand_timer :: "Widget \<Rightarrow> Widget" where
  "auto_expand_timer w =
     (case autoExpandRef w of None \<Rightarrow> w | Some d \<Rightarrow> w\<lparr>isExpanded := True, autoExpandRef := None\<rparr>)"

definition auto_collapse_timer :: "Widget \<Rightarrow> Widget" where
  "auto_collapse_timer w =
     (case autoCollapseRef w of None \<Rightarrow> w | Some d \<Rightarrow> w\<lparr>isExpanded := False, autoCollapseRef := None\<rparr>)"

text \<open>
  What can happen to a mounted widget between two renders. New props run the refresh
  effect; the auto effect, which React re-runs when one of its dependencies changed,
  may run at any point. Every event is followed by a render.
\<close>

datatype WEvent =
    Enter
  | Leave
  | Measure real
  | NewProps SileoProps
  | SwapTimer
  | TransitionEnd string
  | AutoEffect
  | AutoExpandTimer
  | AutoCollapseTimer

fun wstep :: "WEvent \<Rightarrow> Widget \<Rightarrow> Widget" where
  "wstep Enter w = handleEnter w"
| "wstep Leave w = handleLeave w"
| "wstep (Measure h) w = measure_content h w"
| "wstep (NewProps p) w = refresh_effect (w\<lparr>props := p\<rparr>)"
| "wstep SwapTimer w = swap_timer w"
| "wstep (TransitionEnd propertyName) w = handleTransitionEnd propertyName w"
| "wstep AutoEffect w = auto_effect w"
| "wstep AutoExpandTimer w = auto_expand_timer w"
| "wstep AutoCollapseTimer w = auto_collapse_timer w"




section \<open>Invariants of the reachable states\<close>

text \<open>
  Well-formed timers: every handle in use is below the next one \<open>setTimeout\<close> hands
  out, no handle and no key occurs twice, and every pending dismiss timer is held in
  \<open>timersRef\<close>.
\<close>

definition wf_timers :: "World \<Rightarrow> bool" where
  "wf_timers w \<longleftrightarrow>
     (\<forall>t\<in>set (pending w). handle t < nextHandle w) \<and>
     distinct (map handle (pending w)) \<and>
     (\<forall>e\<in>set (timersRef w). snd e < nextHandle w) \<and>
     distinct (map fst (timersRef w)) \<and>
     distinct (map snd (timersRef w)) \<and>
     (\<forall>t\<in>set (pending w). is_dismiss t \<longrightarrow> handle t \<in> snd ` set (timersRef w))"

text \<open>An identifier that \<open>generateId\<close> returned while the counter was below \<open>c\<close>.\<close>

definition minted :: "nat \<Rightarrow> string \<Rightarrow> bool" where
  "minted c s \<longleftrightarrow> (\<exists>n e. n < c \<and> s = fst (generateId n e))"

definition inv_world :: "World \<Rightarrow> bool" where
  "inv_world w \<longleftrightarrow>
     wf_timers w \<and>
     (hoverRef w \<longrightarrow> timersRef w = []) \<and>
     listRef w = toasts w \<and>
     length (toasts w) \<le> 1 \<and>
     fst ` set (timersRef w) \<subseteq> timeoutKey ` set (toasts w) \<and>
     (\<forall>t\<in>set (toasts w). minted (idCounter w) (instanceId t))"

text \<open>Reading a decimal rendering back, used to show that \<open>toString10\<close> is injective.\<close>

definition parse10 :: "string \<Rightarrow> nat" where
  "parse10 s = foldl (\<lambda>acc c. acc * 10 + (of_char c - 48)) 0 s"

declare toString10.simps [simp del]

section \<open>Properties of a notification record\<close>

text \<open>
  \<open>clamped d v x\<close>: the delay \<open>x\<close> is the value \<open>v\<close> brought into the interval from 0 to
  the duration \<open>d\<close>.
\<close>

definition clamped :: "number \<Rightarrow> number \<Rightarrow> number \<Rightarrow> bool" where
  "clamped d v x \<longleftrightarrow>
     js_le (Fin 0) x \<and> js_le x d \<and>
     (js_lt v (Fin 0) \<longrightarrow> x = Fin 0) \<and>
     (js_lt d v \<longrightarrow> x = d) \<and>
     (js_le (Fin 0) v \<and> js_le v d \<longrightarrow> x = v)"

text \<open>
  The autopilot delays of a record agree with its resolved duration: both are absent when
  autopilot is switched off or the duration is 0, negative or NaN, and both are present
  otherwise; a present delay is the configured override, or the default when none is
  configured, clamped into the interval from 0 to the duration, except that a NaN
  override gives a NaN delay.
\<close>

definition delays_ok :: "ToastItem \<Rightarrow> bool" where
  "delays_ok t \<longleftrightarrow>
     (let d = item_duration t;
          ve = nullish (case autopilot t of Some (AutopilotCfg a b) \<Rightarrow> a | _ \<Rightarrow> None)
                 (Fin AUTO_EXPAND_DELAY);
          vc = nullish (case autopilot t of Some (AutopilotCfg a b) \<Rightarrow> b | _ \<Rightarrow> None)
                 (Fin AUTO_COLLAPSE_DELAY);
          off = (autopilot t = Some (AutopilotBool False) \<or> d = NaN \<or> js_le d (Fin 0))
      in (off \<longrightarrow> autoExpandDelayMs t = None \<and> autoCollapseDelayMs t = None) \<and>
         (\<not> off \<longrightarrow>
            (\<exists>x y. autoExpandDelayMs t = Some x \<and> autoCollapseDelayMs t = Some y \<and>
                   (if ve = NaN then x = NaN else clamped d ve x) \<and>
                   (if vc = NaN then y = NaN else clamped d vc y))))"

text \<open>
  What replacing the content of \<open>old\<close> by \<open>new\<close> does to the dismiss timers, from
  the state \<open>w\<close> before to the state \<open>w'\<close> after: the old key is no longer held, no
  pending timer belongs to it, the handle it held is no longer pending; the new key holds
  one timer, with a handle never used before and the full resolved duration of the new
  record, unless the viewport is hovered or the test \<open>dur <= 0\<close> holds of that duration
  (it holds of 0 and of a negative duration, not of NaN), when it holds none.
\<close>

definition timer_replaced :: "World \<Rightarrow> World \<Rightarrow> ToastItem \<Rightarrow> ToastItem \<Rightarrow> bool" where
  "timer_replaced w w' old new \<longleftrightarrow>
     timeoutKey old \<notin> fst ` set (timersRef w') \<and>
     timers_for (timeoutKey old) w' = [] \<and>
     (\<forall>h. (timeoutKey old, h) \<in> set (timersRef w) \<longrightarrow> h \<notin> handle ` set (pending w')) \<and>
     (\<not> hoverRef w \<and> \<not> js_le (item_duration new) (Fin 0) \<longrightarrow>
        timers_for (timeoutKey new) w' =
          [\<lparr>handle = nextHandle w, delay = item_duration new, callback = DismissCb (id_t new)\<rparr>]) \<and>
     (hoverRef w \<or> js_le (item_duration new) (Fin 0) \<longrightarrow> timers_for (timeoutKey new) w' = [])"

section \<open>Example states\<close>

text \<open>
  The scenario of the specification: \<open>show({title: "Saved", duration: 3000})\<close> on the
  freshly mounted viewport, then a dismissal of the notification it created.
\<close>

definition ex_opts :: ToastOptions where
  "ex_opts = empty_options\<lparr>title := Some ''Saved'', duration := Some (Val (Fin 3000))\<rparr>"

definition ex_e1 :: Entropy where
  "ex_e1 = \<lparr>now36 = ''lx0'', random36 = ''a1b2c3''\<rparr>"

definition ex_e2 :: Entropy where
  "ex_e2 = \<lparr>now36 = ''lx0'', random36 = ''d4e5f6''\<rparr>"

definition ex_e3 :: Entropy where
  "ex_e3 = \<lparr>now36 = ''lx9'', random36 = ''g7h8i9''\<rparr>"

definition ex_world1 :: World where
  "ex_world1 = step (Create (internal ex_opts None None) ex_e1 ex_e2) (initial TopRight None)"

definition ex_world2 :: World where
  "ex_world2 = step (Dismiss ''1-lx0-a1b2c3'') ex_world1"

definition ex_item1 :: ToastItem where
  "ex_item1 =
     \<lparr>title = Some ''Saved'', description = None, position = Some TopRight,
      duration = Some (Val (Fin 3000)), icon = None, styles = Some empty_styles,
      fill = None, roundness = None, autopilot = None, button = None,
      id_t = ''1-lx0-a1b2c3'', state_t = None, instanceId = ''2-lx0-d4e5f6'', exiting = False,
      autoExpandDelayMs = Some (Fin 150), autoCollapseDelayMs = Some (Fin 3000)\<rparr>"

text \<open>
  A second creation on top of the first notification, a notification with a \<open>null\<close>
  duration, and one whose autopilot overrides lie outside its duration.
\<close>

definition ex_opts2 :: ToastOptions where
  "ex_opts2 = empty_options\<lparr>title := Some ''Second''\<rparr>"

definition ex_e4 :: Entropy where
  "ex_e4 = \<lparr>now36 = ''lx9'', random36 = ''j0k1l2''\<rparr>"

definition ex_opts_null :: ToastOptions where
  "ex_opts_null = empty_options\<lparr>title := Some ''Loading'', duration := Some Null\<rparr>"

definition ex_world_null :: World where
  "ex_world_null = step (Create (internal ex_opts_null None None) ex_e1 ex_e2) (initial TopRight None)"

definition ex_opts_auto :: ToastOptions where
  "ex_opts_auto =
     empty_options\<lparr>duration := Some (Val (Fin 3000)),
                   autopilot := Some (AutopilotCfg (Some (Fin (- 5))) (Some (Fin 99999)))\<rparr>"

text \<open>Options with a NaN autopilot override, and options with a NaN duration.\<close>

definition ex_opts_nan_override :: ToastOptions where
  "ex_opts_nan_override =
     empty_options\<lparr>duration := Some (Val (Fin 3000)),
                   autopilot := Some (AutopilotCfg (Some NaN) None)\<rparr>"

definition ex_opts_nan_duration :: ToastOptions where
  "ex_opts_nan_duration = empty_options\<lparr>duration := Some (Val NaN)\<rparr>"

text \<open>The pointer enters the first notification.\<close>

definition ex_world_hover :: World where
  "ex_world_hover = step MouseEnter ex_world1"

text \<open>
  The promise scenario of the specification: static loading and success options, error
  options computed from the rejection value.
\<close>

definition ex_promise_opts :: "(string, string) ToastPromiseOptions" where
  "ex_promise_opts =
     \<lparr>loading = \<lparr>title_l = Some ''Loading'', icon_l = None\<rparr>,
      success = Static (empty_options\<lparr>title := Some ''Done''\<rparr>),
      error = Computed (\<lambda>err. empty_options\<lparr>title := Some ''Failed'', description := Some err\<rparr>),
      action = None\<rparr>"

text \<open>
  Widgets: one that another notification owns (\<open>canExpand\<close> false), one in loading state,
  one that was measured at 100 and then hovered, and props that replace its content.
\<close>

definition ex_view :: View where
  "ex_view =
     \<lparr>title_v = Some ''Saved'', description_v = Some ''Details'', state_v = Success,
      icon_v = None, styles_v = None, button_v = None, fill_v = ''#FFFFFF''\<rparr>"

definition ex_props :: SileoProps where
  "ex_props =
     \<lparr>id_p = ''a'', next_p = ex_view, exiting_p = False, autoExpandDelayMs_p = Some (Fin 150),
      autoCollapseDelayMs_p = Some (Fin 4000), canExpand = Some True, interruptKey = None,
      refreshKey = Some ''1''\<rparr>"

definition ex_widget_owned :: Widget where
  "ex_widget_owned = mount (ex_props\<lparr>canExpand := Some False\<rparr>)"

definition ex_widget_loading :: Widget where
  "ex_widget_loading = mount (ex_props\<lparr>next_p := ex_view\<lparr>state_v := Loading\<rparr>\<rparr>)"



section \<open>Basic facts: which fields each operation touches\<close>


lemma setTimeout_fields [simp]:
  "toasts (snd (setTimeout cb ms w)) = toasts w"
  "hoverRef (snd (setTimeout cb ms w)) = hoverRef w"
  "timersRef (snd (setTimeout cb ms w)) = timersRef w"
  "listRef (snd (setTimeout cb ms w)) = listRef w"
  "idCounter (snd (setTimeout cb ms w)) = idCounter w"
  "store_position (snd (setTimeout cb ms w)) = store_position w"
  "store_options (snd (setTimeout cb ms w)) = store_options w"
  "fst (setTimeout cb ms w) = nextHandle w"
  "nextHandle (snd (setTimeout cb ms w)) = Suc (nextHandle w)"
  "pending (snd (setTimeout cb ms w)) = pending w @ [\<lparr>handle = nextHandle w, delay = ms, callback = cb\<rparr>]"
  by (simp_all add: setTimeout_def)

lemma clearTimeout_fields [simp]:
  "toasts (clearTimeout h w) = toasts w"
  "hoverRef (clearTimeout h w) = hoverRef w"
  "timersRef (clearTimeout h w) = timersRef w"
  "listRef (clearTimeout h w) = listRef w"
  "idCounter (clearTimeout h w) = idCounter w"
  "store_position (clearTimeout h w) = store_position w"
  "store_options (clearTimeout h w) = store_options w"
  "nextHandle (clearTimeout h w) = nextHandle w"
  "pending (clearTimeout h w) = filter (\<lambda>t. handle t \<noteq> h) (pending w)"
  by (simp_all add: clearTimeout_def)

lemma schedule_item_frame [simp]:
  "toasts (schedule_item item w) = toasts w"
  "hoverRef (schedule_item item w) = hoverRef w"
  "listRef (schedule_item item w) = listRef w"
  "idCounter (schedule_item item w) = idCounter w"
  "store_position (schedule_item item w) = store_position w"
  "store_options (schedule_item item w) = store_options w"
  by (simp_all add: schedule_item_def Let_def split_beta)

lemma fold_schedule_item_frame [simp]:
  "toasts (fold schedule_item items w) = toasts w"
  "hoverRef (fold schedule_item items w) = hoverRef w"
  "listRef (fold schedule_item items w) = listRef w"
  "idCounter (fold schedule_item items w) = idCounter w"
  "store_position (fold schedule_item items w) = store_position w"
  "store_options (fold schedule_item items w) = store_options w"
  by (induction items arbitrary: w; simp)+

lemma schedule_frame [simp]:
  "toasts (schedule items w) = toasts w"
  "hoverRef (schedule items w) = hoverRef w"
  "listRef (schedule items w) = listRef w"
  "idCounter (schedule items w) = idCounter w"
  "store_position (schedule items w) = store_position w"
  "store_options (schedule items w) = store_options w"
  by (simp_all add: schedule_def)

lemma drop_stale_frame [simp]:
  "toasts (drop_stale ks kt w) = toasts w"
  "hoverRef (drop_stale ks kt w) = hoverRef w"
  "listRef (drop_stale ks kt w) = listRef w"
  "idCounter (drop_stale ks kt w) = idCounter w"
  "store_position (drop_stale ks kt w) = store_position w"
  "store_options (drop_stale ks kt w) = store_options w"
  "nextHandle (drop_stale ks kt w) = nextHandle w"
  by (simp_all add: drop_stale_def)

lemma fold_drop_stale_frame [simp]:
  "toasts (fold (drop_stale ks) xs w) = toasts w"
  "hoverRef (fold (drop_stale ks) xs w) = hoverRef w"
  "listRef (fold (drop_stale ks) xs w) = listRef w"
  "idCounter (fold (drop_stale ks) xs w) = idCounter w"
  "store_position (fold (drop_stale ks) xs w) = store_position w"
  "store_options (fold (drop_stale ks) xs w) = store_options w"
  "nextHandle (fold (drop_stale ks) xs w) = nextHandle w"
  by (induction xs arbitrary: w; simp)+

lemma timers_effect_frame [simp]:
  "toasts (timers_effect w) = toasts w"
  "hoverRef (timers_effect w) = hoverRef w"
  "listRef (timers_effect w) = toasts w"
  "idCounter (timers_effect w) = idCounter w"
  "store_position (timers_effect w) = store_position w"
  "store_options (timers_effect w) = store_options w"
  by (simp_all add: timers_effect_def Let_def)

lemma store_update_frame [simp]:
  "toasts (store_update fn w) = fn (toasts w)"
  "hoverRef (store_update fn w) = hoverRef w"
  "listRef (store_update fn w) = fn (toasts w)"
  "idCounter (store_update fn w) = idCounter w"
  "store_position (store_update fn w) = store_position w"
  "store_options (store_update fn w) = store_options w"
  by (simp_all add: store_update_def)

lemma find_first_None_iff: "find_first p xs = None \<longleftrightarrow> (\<forall>x\<in>set xs. \<not> p x)"
  by (induction xs) auto

lemma find_first_Some_D: "find_first p xs = Some x \<Longrightarrow> x \<in> set xs \<and> p x"
  by (induction xs) (auto split: if_splits)

lemma dismiss_noop:
  "\<forall>t\<in>set (toasts w). id_t t = i \<longrightarrow> exiting t \<Longrightarrow> dismissToast i w = w"
  by (auto simp: dismissToast_def split: option.splits dest: find_first_Some_D)

lemma update_noop:
  "\<forall>t\<in>set (toasts w). id_t t \<noteq> i \<Longrightarrow> updateToast i options e w = w"
  by (auto simp: updateToast_def find_first_None_iff split: option.splits dest: find_first_Some_D)


lemma wf_setTimeout_remove:
  "wf_timers w \<Longrightarrow> wf_timers (snd (setTimeout (RemoveCb i) ms w))"
  by (auto simp: wf_timers_def is_dismiss_def less_Suc_eq)

lemma wf_schedule_item: "wf_timers w \<Longrightarrow> wf_timers (schedule_item item w)"
  unfolding wf_timers_def schedule_item_def Let_def split_beta
  by (auto simp: less_Suc_eq is_dismiss_def image_iff)

lemma wf_fold_schedule_item: "wf_timers w \<Longrightarrow> wf_timers (fold schedule_item items w)"
  by (induction items arbitrary: w) (simp_all add: wf_schedule_item)

lemma wf_schedule: "wf_timers w \<Longrightarrow> wf_timers (schedule items w)"
  by (simp add: schedule_def wf_fold_schedule_item)

lemma timersRef_drop_stale:
  "timersRef (drop_stale ks kt w) =
     filter (\<lambda>e. fst kt \<in> set ks \<or> fst e \<noteq> fst kt) (timersRef w)"
  by (auto simp: drop_stale_def intro: filter_cong)

lemma pending_drop_stale:
  "pending (drop_stale ks kt w) =
     filter (\<lambda>t. fst kt \<in> set ks \<or> handle t \<noteq> snd kt) (pending w)"
  by (auto simp: drop_stale_def intro: filter_cong)

lemma timersRef_fold_drop_stale:
  "timersRef (fold (drop_stale ks) xs w) =
     filter (\<lambda>e. \<forall>kt\<in>set xs. fst kt \<in> set ks \<or> fst e \<noteq> fst kt) (timersRef w)"
  by (induction xs arbitrary: w) (auto simp: timersRef_drop_stale intro: filter_cong)

lemma pending_fold_drop_stale:
  "pending (fold (drop_stale ks) xs w) =
     filter (\<lambda>t. \<forall>kt\<in>set xs. fst kt \<in> set ks \<or> handle t \<noteq> snd kt) (pending w)"
  by (induction xs arbitrary: w) (auto simp: pending_drop_stale intro: filter_cong)

lemma wf_fold_drop_stale:
  assumes "wf_timers w"
  shows "wf_timers (fold (drop_stale ks) (timersRef w) w)"
proof -
  let ?w' = "fold (drop_stale ks) (timersRef w) w"
  have T: "timersRef ?w' = filter (\<lambda>e. fst e \<in> set ks) (timersRef w)"
    by (auto simp: timersRef_fold_drop_stale intro: filter_cong)
  have P: "pending ?w' =
     filter (\<lambda>t. \<forall>kt\<in>set (timersRef w). fst kt \<in> set ks \<or> handle t \<noteq> snd kt) (pending w)"
    by (rule pending_fold_drop_stale)
  have "\<forall>t\<in>set (pending ?w'). is_dismiss t \<longrightarrow> handle t \<in> snd ` set (timersRef ?w')"
  proof (intro ballI impI)
    fix t assume t: "t \<in> set (pending ?w')" and d: "is_dismiss t"
    from t P have tp: "t \<in> set (pending w)"
      and keep: "\<forall>kt\<in>set (timersRef w). fst kt \<in> set ks \<or> handle t \<noteq> snd kt" by auto
    from assms tp d obtain e where e: "e \<in> set (timersRef w)" "snd e = handle t"
      by (auto simp: wf_timers_def)
    with keep have "fst e \<in> set ks" by auto
    with e T have "e \<in> set (timersRef ?w')" by simp
    with e(2) show "handle t \<in> snd ` set (timersRef ?w')" by (metis image_eqI)
  qed
  moreover have "distinct (map fst (timersRef ?w'))" "distinct (map snd (timersRef ?w'))"
    using assms by (simp_all add: T wf_timers_def distinct_map_filter)
  moreover have "distinct (map handle (pending ?w'))"
    using assms by (simp add: P wf_timers_def distinct_map_filter)
  ultimately show ?thesis using assms
    by (auto simp: wf_timers_def T P)
qed

lemma wf_timers_effect: "wf_timers w \<Longrightarrow> wf_timers (timers_effect w)"
proof -
  assume a: "wf_timers w"
  have "wf_timers (w\<lparr>listRef := toasts w\<rparr>)" using a by (simp add: wf_timers_def)
  from wf_fold_drop_stale[OF this, where ks = "map timeoutKey (toasts w)"]
  show ?thesis
    by (simp add: timers_effect_def Let_def wf_schedule)
qed


lemma digit10_not_dash: "d < 10 \<Longrightarrow> digit10 d \<noteq> CHR ''-''"
proof
  assume d: "d < 10" and eq: "digit10 d = CHR ''-''"
  then have "of_char (digit10 d) = (of_char (CHR ''-'') :: nat)" by simp
  with d show False by (simp add: digit10_def)
qed

lemma toString10_no_dash: "c \<in> set (toString10 n) \<Longrightarrow> c \<noteq> CHR ''-''"
proof (induction n arbitrary: c rule: toString10.induct)
  case (1 n)
  show ?case
  proof (cases "n < 10")
    case True
    with "1.prems" show ?thesis
      by (simp add: toString10.simps[of n] digit10_not_dash)
  next
    case False
    with "1.prems" have "c \<in> set (toString10 (n div 10)) \<or> c = digit10 (n mod 10)"
      by (auto simp add: toString10.simps[of n])
    then show ?thesis using "1.IH"[OF False] digit10_not_dash[of "n mod 10"] by auto
  qed
qed

lemma parse10_toString10: "parse10 (toString10 n) = n"
proof (induction n rule: toString10.induct)
  case (1 n)
  show ?case
  proof (cases "n < 10")
    case True
    then show ?thesis by (simp add: toString10.simps[of n] parse10_def digit10_def)
  next
    case False
    have "parse10 (toString10 n) = parse10 (toString10 (n div 10)) * 10 + n mod 10"
      using False by (simp add: toString10.simps[of n] parse10_def digit10_def)
    with "1.IH"[OF False] show ?thesis by simp
  qed
qed

lemma toString10_inj: "toString10 n = toString10 m \<Longrightarrow> n = m"
  by (metis parse10_toString10)

lemma generateId_counter_inj:
  assumes "fst (generateId n e) = fst (generateId m e')"
  shows "n = m"
proof -
  have tw: "takeWhile (\<lambda>c. c \<noteq> CHR ''-'') (toString10 k @ ''-'' @ r) = toString10 k" for k r
    using toString10_no_dash by simp
  from assms have "toString10 (Suc n) @ ''-'' @ (now36 e @ ''-'' @ random36 e)
      = toString10 (Suc m) @ ''-'' @ (now36 e' @ ''-'' @ random36 e')"
    by (simp add: generateId_def)
  then have "takeWhile (\<lambda>c. c \<noteq> CHR ''-'') (toString10 (Suc n) @ ''-'' @ (now36 e @ ''-'' @ random36 e))
      = takeWhile (\<lambda>c. c \<noteq> CHR ''-'') (toString10 (Suc m) @ ''-'' @ (now36 e' @ ''-'' @ random36 e'))"
    by simp
  then have "toString10 (Suc n) = toString10 (Suc m)" by (simp only: tw)
  then show ?thesis using toString10_inj by blast
qed

lemma minted_fresh: "minted c s \<Longrightarrow> s \<noteq> fst (generateId c e)"
  by (auto simp: minted_def dest: generateId_counter_inj)

lemma minted_mono:
  assumes "minted c s" and "c \<le> c'"
  shows "minted c' s"
proof -
  from assms(1) obtain n e where "n < c" and "s = fst (generateId n e)"
    unfolding minted_def by blast
  with assms(2) have "n < c' \<and> s = fst (generateId n e)" by simp
  then show ?thesis unfolding minted_def by blast
qed

lemma minted_new: "minted (snd (generateId c e)) (fst (generateId c e))"
  by (auto simp: minted_def generateId_def)

lemma snd_generateId [simp]: "snd (generateId c e) = Suc c"
  by (simp add: generateId_def)


lemma keys_schedule_item:
  "fst ` set (timersRef (schedule_item item w)) \<subseteq> insert (timeoutKey item) (fst ` set (timersRef w))"
  by (auto simp: schedule_item_def Let_def split_beta)

lemma keys_fold_schedule_item:
  "fst ` set (timersRef (fold schedule_item items w)) \<subseteq> timeoutKey ` set items \<union> fst ` set (timersRef w)"
proof (induction items arbitrary: w)
  case Nil
  then show ?case by simp
next
  case (Cons a items)
  from Cons.IH[of "schedule_item a w"] keys_schedule_item[of a w]
  show ?case by auto
qed

lemma keys_schedule:
  "fst ` set (timersRef (schedule items w)) \<subseteq> timeoutKey ` set items \<union> fst ` set (timersRef w)"
  using keys_fold_schedule_item[of items w] by (simp add: schedule_def)

lemma timers_effect_hover:
  "hoverRef w \<Longrightarrow> timersRef w = [] \<Longrightarrow> timersRef (timers_effect w) = []"
  by (simp add: timers_effect_def Let_def schedule_def)

lemma timers_effect_keys:
  "fst ` set (timersRef (timers_effect w)) \<subseteq> timeoutKey ` set (toasts w)"
proof -
  let ?ks = "map timeoutKey (toasts w)"
  let ?w1 = "w\<lparr>listRef := toasts w\<rparr>"
  let ?w2 = "fold (drop_stale ?ks) (timersRef ?w1) ?w1"
  have "fst ` set (timersRef ?w2) \<subseteq> set ?ks"
    by (auto simp: timersRef_fold_drop_stale)
  with keys_schedule[of "toasts w" ?w2] show ?thesis
    by (auto simp: timers_effect_def Let_def)
qed

lemma inv_store_update:
  assumes "wf_timers w" and "hoverRef w \<longrightarrow> timersRef w = []"
    and "length (fn (toasts w)) \<le> 1"
    and "\<forall>t\<in>set (fn (toasts w)). minted (idCounter w) (instanceId t)"
  shows "inv_world (store_update fn w)"
proof -
  let ?w0 = "w\<lparr>toasts := fn (toasts w)\<rparr>"
  have wf0: "wf_timers ?w0" using assms(1) by (simp add: wf_timers_def)
  have "wf_timers (store_update fn w)"
    unfolding store_update_def by (rule wf_timers_effect[OF wf0])
  moreover have "hoverRef (store_update fn w) \<longrightarrow> timersRef (store_update fn w) = []"
    using assms(2) timers_effect_hover[of ?w0] by (simp add: store_update_def)
  moreover have "fst ` set (timersRef (store_update fn w)) \<subseteq> timeoutKey ` set (toasts (store_update fn w))"
    using timers_effect_keys[of ?w0] by (simp add: store_update_def)
  ultimately show ?thesis using assms(3,4) by (simp add: inv_world_def)
qed

lemma wf_idCounter [simp]: "wf_timers (w\<lparr>idCounter := c\<rparr>) = wf_timers w"
  by (simp add: wf_timers_def)

lemma wf_props [simp]: "wf_timers (w\<lparr>store_position := p, store_options := opt\<rparr>) = wf_timers w"
  by (simp add: wf_timers_def)


lemma idCounter_create_id:
  "idCounter w \<le> snd (case x of Some v \<Rightarrow> (v, idCounter w)
       | None \<Rightarrow> (case y of Some p \<Rightarrow> (f p, idCounter w) | None \<Rightarrow> generateId (idCounter w) e1))"
  by (simp split: option.splits)

lemma createToast_shape:
  obtains item c1 pos where
    "snd (createToast options e1 e2 w) = store_update (\<lambda>_. [item]) (w\<lparr>idCounter := Suc c1\<rparr>)"
    and "idCounter w \<le> c1"
    and "instanceId item = fst (generateId c1 e2)"
    and "id_t item = fst (fst (createToast options e1 e2 w))"
    and "\<not> exiting item"
    and "item = build_item (merge_options (store_options w) options)
                  (fst (fst (createToast options e1 e2 w))) (fst (generateId c1 e2)) pos
                  (resolveAutopilot (merge_options (store_options w) options)
                     (Some (nullish_null (duration (merge_options (store_options w) options))
                              (Fin DEFAULT_DURATION))))"
proof -
  define merged where "merged = merge_options (store_options w) options"
  define live where "live = filter (\<lambda>t. \<not> exiting t) (toasts w)"
  define prev where "prev = (if truthy (id_o merged)
                  then find_first (\<lambda>t. Some (id_t t) = id_o merged) live
                  else last_opt live)"
  define ic where "ic = (case id_o merged of
                       Some v \<Rightarrow> (v, idCounter w)
                     | None \<Rightarrow> (case prev of
                                  Some p \<Rightarrow> (id_t p, idCounter w)
                                | None \<Rightarrow> generateId (idCounter w) e1))"
  define dur where "dur = nullish_null (duration merged) (Fin DEFAULT_DURATION)"
  define pos where "pos = nullish (position merged)
                  (nullish (case prev of Some p \<Rightarrow> position p | None \<Rightarrow> None) (store_position w))"
  define item where "item = build_item merged (fst ic) (fst (generateId (snd ic) e2)) pos
      (resolveAutopilot merged (Some dur))"
  have "createToast options e1 e2 w =
      ((fst ic, dur), store_update (\<lambda>_. [item]) (w\<lparr>idCounter := snd (generateId (snd ic) e2)\<rparr>))"
    unfolding createToast_def Let_def split_beta item_def pos_def dur_def ic_def prev_def live_def
      merged_def
    by (rule refl)
  then have eq: "createToast options e1 e2 w =
      ((fst ic, dur), store_update (\<lambda>_. [item]) (w\<lparr>idCounter := Suc (snd ic)\<rparr>))"
    by (simp only: snd_generateId)
  show ?thesis
  proof (rule that[of item "snd ic" pos])
    show "snd (createToast options e1 e2 w) = store_update (\<lambda>_. [item]) (w\<lparr>idCounter := Suc (snd ic)\<rparr>)"
      by (simp add: eq)
    show "idCounter w \<le> snd ic" unfolding ic_def by (rule idCounter_create_id)
    show "instanceId item = fst (generateId (snd ic) e2)" by (simp add: item_def build_item_def)
    show "id_t item = fst (fst (createToast options e1 e2 w))" by (simp add: eq item_def build_item_def)
    show "\<not> exiting item" by (simp add: item_def build_item_def)
    show "item = build_item (merge_options (store_options w) options)
                  (fst (fst (createToast options e1 e2 w))) (fst (generateId (snd ic) e2)) pos
                  (resolveAutopilot (merge_options (store_options w) options)
                     (Some (nullish_null (duration (merge_options (store_options w) options))
                              (Fin DEFAULT_DURATION))))"
      unfolding eq fst_conv item_def dur_def merged_def by (rule refl)
  qed
qed

lemma createToast_id:
  "fst (fst (createToast options e1 e2 w)) =
     (case id_o options of
        Some v \<Rightarrow> v
      | None \<Rightarrow> (case last_opt (filter (\<lambda>t. \<not> exiting t) (toasts w)) of
                   Some p \<Rightarrow> id_t p
                 | None \<Rightarrow> fst (generateId (idCounter w) e1)))"
proof -
  have m: "id_o (merge_options (store_options w) options) = id_o options"
    by (simp add: merge_options_def Let_def)
  show ?thesis
    unfolding createToast_def Let_def split_beta fst_conv m
    by (simp add: truthy_def split: option.splits)
qed

lemma inv_createToast:
  assumes "inv_world w"
  shows "inv_world (snd (createToast options e1 e2 w))"
proof -
  obtain item c1 where
    r: "snd (createToast options e1 e2 w) = store_update (\<lambda>_. [item]) (w\<lparr>idCounter := Suc c1\<rparr>)"
    and inst: "instanceId item = fst (generateId c1 e2)"
    by (rule createToast_shape)
  have "minted (Suc c1) (instanceId item)" using minted_new[of c1 e2] inst by simp
  then have "inv_world (store_update (\<lambda>_. [item]) (w\<lparr>idCounter := Suc c1\<rparr>))"
    by (intro inv_store_update) (use assms in \<open>simp_all add: inv_world_def\<close>)
  with r show ?thesis by simp
qed


lemma updateToast_shape:
  assumes "find_first (\<lambda>t. id_t t = i) (toasts w) = Some existing"
  obtains item pos where
    "updateToast i options e w =
       store_update (map (\<lambda>t. if id_t t = i then item else t)) (w\<lparr>idCounter := Suc (idCounter w)\<rparr>)"
    and "instanceId item = fst (generateId (idCounter w) e)"
    and "id_t item = i"
    and "\<not> exiting item"
    and "item = build_item (merge_options (store_options w) options) i
                  (fst (generateId (idCounter w) e)) pos
                  (resolveAutopilot (merge_options (store_options w) options)
                     (Some (nullish_null (duration (merge_options (store_options w) options))
                              (Fin DEFAULT_DURATION))))"
proof -
  define merged where "merged = merge_options (store_options w) options"
  define dur where "dur = nullish_null (duration merged) (Fin DEFAULT_DURATION)"
  define pos where "pos = nullish (position merged) (nullish (position existing) (store_position w))"
  define item where "item = build_item merged i (fst (generateId (idCounter w) e)) pos
      (resolveAutopilot merged (Some dur))"
  have "updateToast i options e w =
       store_update (map (\<lambda>t. if id_t t = i then item else t))
         (w\<lparr>idCounter := snd (generateId (idCounter w) e)\<rparr>)"
    unfolding updateToast_def Let_def split_beta item_def pos_def dur_def merged_def assms option.case
    by (rule refl)
  then have eq: "updateToast i options e w =
       store_update (map (\<lambda>t. if id_t t = i then item else t)) (w\<lparr>idCounter := Suc (idCounter w)\<rparr>)"
    by (simp only: snd_generateId)
  show ?thesis
  proof (rule that[of item pos])
    show "item = build_item (merge_options (store_options w) options) i
                  (fst (generateId (idCounter w) e)) pos
                  (resolveAutopilot (merge_options (store_options w) options)
                     (Some (nullish_null (duration (merge_options (store_options w) options))
                              (Fin DEFAULT_DURATION))))"
      unfolding item_def dur_def merged_def by (rule refl)
  qed (simp_all add: eq item_def build_item_def)
qed

lemma inv_updateToast:
  assumes "inv_world w"
  shows "inv_world (updateToast i options e w)"
proof (cases "find_first (\<lambda>t. id_t t = i) (toasts w)")
  case None
  then show ?thesis using assms by (simp add: updateToast_def)
next
  case (Some existing)
  then obtain item where
    r: "updateToast i options e w =
       store_update (map (\<lambda>t. if id_t t = i then item else t)) (w\<lparr>idCounter := Suc (idCounter w)\<rparr>)"
    and inst: "instanceId item = fst (generateId (idCounter w) e)"
    by (rule updateToast_shape)
  have m: "minted (Suc (idCounter w)) (instanceId item)"
    using minted_new[of "idCounter w" e] inst by simp
  have "inv_world (store_update (map (\<lambda>t. if id_t t = i then item else t)) (w\<lparr>idCounter := Suc (idCounter w)\<rparr>))"
    by (intro inv_store_update) (use assms m in \<open>auto simp: inv_world_def intro: minted_mono\<close>)
  with r show ?thesis by simp
qed

lemma inv_setTimeout_remove:
  "inv_world w \<Longrightarrow> inv_world (snd (setTimeout (RemoveCb i) ms w))"
  by (simp add: inv_world_def wf_setTimeout_remove)

lemma inv_store_update_same:
  assumes "inv_world w" and "length (fn (toasts w)) \<le> 1"
    and "\<forall>t\<in>set (fn (toasts w)). minted (idCounter w) (instanceId t)"
  shows "inv_world (store_update fn w)"
  by (rule inv_store_update) (use assms in \<open>simp_all add: inv_world_def\<close>)

lemma inv_dismissToast:
  assumes "inv_world w"
  shows "inv_world (dismissToast i w)"
proof -
  have "inv_world (store_update (map (\<lambda>t. if id_t t = i then t\<lparr>exiting := True\<rparr> else t)) w)"
    by (rule inv_store_update_same) (use assms in \<open>auto simp: inv_world_def\<close>)
  then show ?thesis using assms
    by (auto simp: dismissToast_def Let_def inv_setTimeout_remove split: option.splits)
qed

lemma inv_clear: "inv_world w \<Longrightarrow> inv_world (clear pos w)"
  unfolding clear_def
  by (rule inv_store_update_same) (auto simp: inv_world_def le_trans[OF length_filter_le] split: option.splits)

lemma pending_fold_clearTimeout:
  "pending (fold clearTimeout hs w) = filter (\<lambda>t. handle t \<notin> set hs) (pending w)"
  by (induction hs arbitrary: w) (auto intro: filter_cong)

lemma fold_clearTimeout_frame [simp]:
  "toasts (fold clearTimeout hs w) = toasts w"
  "hoverRef (fold clearTimeout hs w) = hoverRef w"
  "listRef (fold clearTimeout hs w) = listRef w"
  "idCounter (fold clearTimeout hs w) = idCounter w"
  "nextHandle (fold clearTimeout hs w) = nextHandle w"
  "store_position (fold clearTimeout hs w) = store_position w"
  "store_options (fold clearTimeout hs w) = store_options w"
  by (induction hs arbitrary: w; simp)+

lemma clearAllTimers_fields [simp]:
  "toasts (clearAllTimers w) = toasts w"
  "hoverRef (clearAllTimers w) = hoverRef w"
  "listRef (clearAllTimers w) = listRef w"
  "idCounter (clearAllTimers w) = idCounter w"
  "nextHandle (clearAllTimers w) = nextHandle w"
  "timersRef (clearAllTimers w) = []"
  "pending (clearAllTimers w) = filter (\<lambda>t. handle t \<notin> snd ` set (timersRef w)) (pending w)"
  by (simp_all add: clearAllTimers_def pending_fold_clearTimeout)

lemma inv_handleMouseEnter: "inv_world w \<Longrightarrow> inv_world (handleMouseEnter w)"
  by (auto simp: handleMouseEnter_def inv_world_def wf_timers_def distinct_map_filter)

lemma inv_handleMouseLeave:
  assumes "inv_world w"
  shows "inv_world (handleMouseLeave w)"
proof (cases "hoverRef w")
  case False
  then show ?thesis using assms by (simp add: handleMouseLeave_def)
next
  case True
  let ?w1 = "w\<lparr>hoverRef := False\<rparr>"
  have wf1: "wf_timers ?w1" using assms by (simp add: inv_world_def wf_timers_def)
  have "fst ` set (timersRef (schedule (toasts w) ?w1)) \<subseteq> timeoutKey ` set (toasts w)"
    using keys_schedule[of "toasts w" ?w1] assms True by (auto simp: inv_world_def)
  then show ?thesis using assms True wf_schedule[OF wf1, of "toasts w"]
    by (simp add: handleMouseLeave_def inv_world_def Let_def)
qed

lemma inv_fire:
  assumes "inv_world w"
  shows "inv_world (fire h w)"
proof (cases "find_first (\<lambda>t. handle t = h) (pending w)")
  case None
  then show ?thesis using assms by (simp add: fire_def)
next
  case (Some t)
  let ?w1 = "w\<lparr>pending := filter (\<lambda>t. handle t \<noteq> h) (pending w)\<rparr>"
  have i1: "inv_world ?w1"
    using assms by (auto simp: inv_world_def wf_timers_def distinct_map_filter)
  show ?thesis
  proof (cases "callback t")
    case (DismissCb i)
    with Some show ?thesis using inv_dismissToast[OF i1] by (simp add: fire_def Let_def)
  next
    case (RemoveCb i)
    have "inv_world (store_update (filter (\<lambda>t. id_t t \<noteq> i)) ?w1)"
      by (rule inv_store_update_same[OF i1])
         (use i1 in \<open>auto simp: inv_world_def le_trans[OF length_filter_le]\<close>)
    with Some RemoveCb show ?thesis by (simp add: fire_def Let_def)
  qed
qed

lemma inv_initial: "inv_world (initial pos opts)"
  by (simp add: inv_world_def initial_def wf_timers_def)

lemma inv_step: "inv_world w \<Longrightarrow> inv_world (step ev w)"
proof (cases ev)
  case (Props p opt)
  assume "inv_world w"
  with Props show ?thesis by (simp add: inv_world_def)
qed (simp_all add: inv_createToast inv_updateToast inv_dismissToast inv_clear
      inv_handleMouseEnter inv_handleMouseLeave inv_fire)

lemma reachable_inv: "reachable w \<Longrightarrow> inv_world w"
  by (induction rule: reachable.induct) (simp_all add: inv_initial inv_step)

section \<open>Evaluating the example states\<close>

lemma ex_world1_eq:
  "ex_world1 =
     \<lparr>toasts = [ex_item1], store_position = TopRight, store_options = None, idCounter = 2,
      pending = [\<lparr>handle = 1, delay = Fin 3000, callback = DismissCb ''1-lx0-a1b2c3''\<rparr>],
      nextHandle = 2, hoverRef = False, timersRef = [(''1-lx0-a1b2c3:2-lx0-d4e5f6'', 1)],
      listRef = [ex_item1]\<rparr>"
  by code_simp

lemma ex_world2_eq:
  "ex_world2 =
     \<lparr>toasts = [ex_item1\<lparr>exiting := True\<rparr>], store_position = TopRight, store_options = None,
      idCounter = 2,
      pending = [\<lparr>handle = 1, delay = Fin 3000, callback = DismissCb ''1-lx0-a1b2c3''\<rparr>,
                 \<lparr>handle = 2, delay = Fin 600, callback = RemoveCb ''1-lx0-a1b2c3''\<rparr>],
      nextHandle = 3, hoverRef = False, timersRef = [(''1-lx0-a1b2c3:2-lx0-d4e5f6'', 1)],
      listRef = [ex_item1\<lparr>exiting := True\<rparr>]\<rparr>"
  by code_simp

lemma reachable_ex_world1: "reachable ex_world1"
  unfolding ex_world1_def by (intro reachable.intros)

lemma reachable_ex_world2: "reachable ex_world2"
  unfolding ex_world2_def ex_world1_def by (intro reachable.intros)

section \<open>Defensive no-ops\<close>

text \<open>
  Claim C5. Dismissing an id that no live record carries (unknown, or every record with it
  already exiting) returns the state as it was: the store is unchanged and no removal is
  scheduled. Updating an id that no record carries returns the state as it was. Both are
  total functions of the model, so neither throws.
\<close>

theorem noop_unknown_or_exiting:
  "((\<forall>t\<in>set (toasts w). id_t t = i \<longrightarrow> exiting t) \<longrightarrow> dismissToast i w = w) \<and>
   ((\<forall>t\<in>set (toasts w). id_t t \<noteq> i) \<longrightarrow> updateToast i options e w = w)"
  using dismiss_noop[of w i] update_noop[of w i options e] by blast

theorem noop_unknown_or_exiting_witness:
  "dismissToast ''1-lx0-a1b2c3'' ex_world2 = ex_world2 \<and>
   dismissToast ''unknown'' ex_world2 = ex_world2 \<and>
   updateToast ''unknown'' (internal ex_opts None None) ex_e3 ex_world2 = ex_world2"
proof -
  have a: "\<forall>t\<in>set (toasts ex_world2). id_t t = ''1-lx0-a1b2c3'' \<longrightarrow> exiting t" by code_simp
  have b: "\<forall>t\<in>set (toasts ex_world2). id_t t = ''unknown'' \<longrightarrow> exiting t" by code_simp
  have c: "\<forall>t\<in>set (toasts ex_world2). id_t t \<noteq> ''unknown''" by code_simp
  from a b c noop_unknown_or_exiting[of ex_world2 "''1-lx0-a1b2c3''"]
    noop_unknown_or_exiting[of ex_world2 "''unknown''" "internal ex_opts None None" ex_e3]
  show ?thesis by blast
qed


lemma find_first_append_last:
  "\<forall>x\<in>set xs. \<not> p x \<Longrightarrow> p y \<Longrightarrow> find_first p (xs @ [y]) = Some y"
  by (induction xs) simp_all

lemma filter_id_map_exiting:
  "filter (\<lambda>t. id_t t \<noteq> i) (map (\<lambda>t. if id_t t = i then t\<lparr>exiting := True\<rparr> else t) xs)
     = filter (\<lambda>t. id_t t \<noteq> i) xs"
  by (induction xs) simp_all

lemma wf_fresh_handle: "inv_world w \<Longrightarrow> \<forall>t\<in>set (pending w). handle t \<noteq> nextHandle w"
  by (auto simp: inv_world_def wf_timers_def)

section \<open>Dismissing a live notification\<close>

text \<open>
  Claim C4. In a reachable state, dismissing the id of a live record sets the exiting flag of
  the records with that id and leaves the others and the order as they were, before it
  returns; it schedules one removal timeout whose delay is the exit delay (600 ms), and when
  that timeout fires the store is the earlier sequence without the records of that id.
\<close>

theorem dismiss_live:
  assumes "reachable w"
    and "find_first (\<lambda>t. id_t t = i) (toasts w) = Some item"
    and "\<not> exiting item"
  shows "toasts (dismissToast i w) =
           map (\<lambda>t. if id_t t = i then t\<lparr>exiting := True\<rparr> else t) (toasts w) \<and>
         EXIT_DURATION = 600 \<and>
         (\<exists>h ps. pending (dismissToast i w) =
                    ps @ [\<lparr>handle = h, delay = Fin EXIT_DURATION, callback = RemoveCb i\<rparr>] \<and>
                  (\<forall>t\<in>set ps. handle t \<noteq> h) \<and>
                  toasts (fire h (dismissToast i w)) = filter (\<lambda>t. id_t t \<noteq> i) (toasts w))"
proof -
  let ?f = "\<lambda>t. if id_t t = i then t\<lparr>exiting := True\<rparr> else t"
  let ?w1 = "store_update (map ?f) w"
  let ?h = "nextHandle ?w1"
  let ?tm = "\<lparr>handle = ?h, delay = Fin EXIT_DURATION, callback = RemoveCb i\<rparr>"
  let ?w' = "dismissToast i w"
  have d: "?w' = snd (setTimeout (RemoveCb i) (Fin EXIT_DURATION) ?w1)"
    using assms(2,3) by (simp add: dismissToast_def Let_def)
  have inv0: "inv_world w" by (rule reachable_inv[OF assms(1)])
  have inv1: "inv_world ?w1"
    by (rule inv_store_update_same) (use inv0 in \<open>auto simp: inv_world_def\<close>)
  have fresh: "\<forall>t\<in>set (pending ?w1). handle t \<noteq> ?h"
    by (rule wf_fresh_handle[OF inv1])
  have p: "pending ?w' = pending ?w1 @ [?tm]" by (simp add: d)
  have t: "toasts ?w' = map ?f (toasts w)" by (simp add: d)
  have ff: "find_first (\<lambda>t. handle t = ?h) (pending ?w') = Some ?tm"
    unfolding p by (rule find_first_append_last) (use fresh in simp_all)
  have "toasts (fire ?h ?w') = filter (\<lambda>t. id_t t \<noteq> i) (toasts ?w')"
    by (simp add: fire_def ff Let_def)
  then have "toasts (fire ?h ?w') = filter (\<lambda>t. id_t t \<noteq> i) (toasts w)"
    by (simp add: t filter_id_map_exiting)
  then have "pending ?w' = pending ?w1 @ [?tm] \<and> (\<forall>t\<in>set (pending ?w1). handle t \<noteq> ?h) \<and>
      toasts (fire ?h ?w') = filter (\<lambda>t. id_t t \<noteq> i) (toasts w)"
    using p fresh by blast
  then have ex: "\<exists>h ps. pending ?w' = ps @ [\<lparr>handle = h, delay = Fin EXIT_DURATION, callback = RemoveCb i\<rparr>] \<and>
      (\<forall>t\<in>set ps. handle t \<noteq> h) \<and>
      toasts (fire h ?w') = filter (\<lambda>t. id_t t \<noteq> i) (toasts w)"
    by blast
  have "EXIT_DURATION = 600" by (simp add: EXIT_DURATION_def DEFAULT_DURATION_def)
  with t ex show ?thesis by blast
qed

theorem dismiss_live_witness:
  "toasts (dismissToast ''1-lx0-a1b2c3'' ex_world1) = [ex_item1\<lparr>exiting := True\<rparr>] \<and>
   (\<exists>h ps. pending (dismissToast ''1-lx0-a1b2c3'' ex_world1) =
              ps @ [\<lparr>handle = h, delay = Fin 600, callback = RemoveCb ''1-lx0-a1b2c3''\<rparr>] \<and>
            toasts (fire h (dismissToast ''1-lx0-a1b2c3'' ex_world1)) = [])"
proof -
  let ?i = "''1-lx0-a1b2c3''"
  have f: "find_first (\<lambda>t. id_t t = ?i) (toasts ex_world1) = Some ex_item1"
    by code_simp
  have e: "\<not> exiting ex_item1" by code_simp
  have m: "map (\<lambda>t. if id_t t = ?i then t\<lparr>exiting := True\<rparr> else t) (toasts ex_world1)
             = [ex_item1\<lparr>exiting := True\<rparr>]" by code_simp
  have r: "filter (\<lambda>t. id_t t \<noteq> ?i) (toasts ex_world1) = []" by code_simp
  have x: "EXIT_DURATION = 600" by code_simp
  from dismiss_live[OF reachable_ex_world1 f e] show ?thesis
    unfolding m r x by blast
qed

section \<open>Creating a notification\<close>

text \<open>
  Claim C1 as stated fails: after \<open>show\<close> has created a notification, a second creator
  call without an id does not append; the earlier record is no longer in the store, which
  holds one record.
\<close>

theorem create_appends_counterexample:
  "ex_item1 \<in> set (toasts ex_world1) \<and>
   ex_item1 \<notin> set (toasts (snd (sileo_success ex_opts2 ex_e3 ex_e4 ex_world1))) \<and>
   length (toasts (snd (sileo_success ex_opts2 ex_e3 ex_e4 ex_world1))) = 1"
  by code_simp

text \<open>
  Claim C1, amended. \<open>createToast\<close> ends with \<open>store.update(() => [item])\<close>: the
  store afterwards holds the new record and nothing else. The record carries the id the
  call returns: the explicit id when one is supplied, else the id of the last live record,
  else a generated id; it is not exiting, and in a reachable state its instance id differs
  from that of every record that was in the store.
\<close>

theorem create_replaces_store:
  "\<exists>item. toasts (snd (createToast options e1 e2 w)) = [item] \<and>
          id_t item = fst (fst (createToast options e1 e2 w)) \<and>
          id_t item =
            (case id_o options of
               Some v \<Rightarrow> v
             | None \<Rightarrow> (case last_opt (filter (\<lambda>t. \<not> exiting t) (toasts w)) of
                          Some p \<Rightarrow> id_t p
                        | None \<Rightarrow> fst (generateId (idCounter w) e1))) \<and>
          \<not> exiting item \<and>
          (reachable w \<longrightarrow> (\<forall>t\<in>set (toasts w). instanceId item \<noteq> instanceId t))"
proof -
  obtain item c1 where
    r: "snd (createToast options e1 e2 w) = store_update (\<lambda>_. [item]) (w\<lparr>idCounter := Suc c1\<rparr>)"
    and c: "idCounter w \<le> c1"
    and inst: "instanceId item = fst (generateId c1 e2)"
    and i: "id_t item = fst (fst (createToast options e1 e2 w))"
    and x: "\<not> exiting item"
    by (rule createToast_shape)
  have t: "toasts (snd (createToast options e1 e2 w)) = [item]" by (simp add: r)
  have fresh: "\<forall>t\<in>set (toasts w). instanceId item \<noteq> instanceId t" if "reachable w"
  proof
    fix t assume "t \<in> set (toasts w)"
    with reachable_inv[OF that] have "minted (idCounter w) (instanceId t)"
      by (simp add: inv_world_def)
    then have "minted c1 (instanceId t)" using c by (rule minted_mono)
    then show "instanceId item \<noteq> instanceId t"
      using minted_fresh[of c1 "instanceId t" e2] inst by simp
  qed
  from t i x fresh createToast_id[of options e1 e2 w] show ?thesis by auto
qed

theorem create_replaces_store_witness:
  "\<exists>item. toasts (snd (createToast (internal ex_opts2 None (Some Success)) ex_e3 ex_e4 ex_world1)) = [item] \<and>
          id_t item = ''1-lx0-a1b2c3'' \<and> instanceId item \<noteq> ''2-lx0-d4e5f6''"
proof -
  have a: "id_o (internal ex_opts2 None (Some Success)) = None" by code_simp
  have b: "last_opt (filter (\<lambda>t. \<not> exiting t) (toasts ex_world1)) = Some ex_item1" by code_simp
  have c: "id_t ex_item1 = ''1-lx0-a1b2c3''" by code_simp
  have d: "ex_item1 \<in> set (toasts ex_world1)" by code_simp
  have e: "instanceId ex_item1 = ''2-lx0-d4e5f6''" by code_simp
  from create_replaces_store[of "internal ex_opts2 None (Some Success)" ex_e3 ex_e4 ex_world1]
  obtain item where
    "toasts (snd (createToast (internal ex_opts2 None (Some Success)) ex_e3 ex_e4 ex_world1)) = [item]"
    "id_t item = (case id_o (internal ex_opts2 None (Some Success)) of
               Some v \<Rightarrow> v
             | None \<Rightarrow> (case last_opt (filter (\<lambda>t. \<not> exiting t) (toasts ex_world1)) of
                          Some p \<Rightarrow> id_t p
                        | None \<Rightarrow> fst (generateId (idCounter ex_world1) ex_e3)))"
    "reachable ex_world1 \<longrightarrow> (\<forall>t\<in>set (toasts ex_world1). instanceId item \<noteq> instanceId t)"
    by blast
  with reachable_ex_world1 d have
    "toasts (snd (createToast (internal ex_opts2 None (Some Success)) ex_e3 ex_e4 ex_world1)) = [item] \<and>
     id_t item = ''1-lx0-a1b2c3'' \<and> instanceId item \<noteq> instanceId ex_item1"
    by (simp add: a b c)
  then show ?thesis unfolding e by blast
qed

section \<open>A notification with a null duration\<close>

text \<open>
  Claim C2 at its failing input. \<open>show({title: "Loading", duration: null})\<close> on the fresh
  viewport stores a record whose duration is \<open>null\<close>, yet \<open>schedule\<close> resolves
  \<open>item.duration ?? DEFAULT_DURATION\<close> to 6000 and sets a dismiss timer of 6000 ms; when it
  and then the exit timer fire, the record is gone.
\<close>

theorem null_duration_is_timed_out:
  "map duration (toasts ex_world_null) = [Some Null] \<and>
   pending ex_world_null = [\<lparr>handle = 1, delay = Fin 6000, callback = DismissCb ''1-lx0-a1b2c3''\<rparr>] \<and>
   toasts (fire 2 (fire 1 ex_world_null)) = []"
  by code_simp

section \<open>Autopilot delays\<close>

lemma clamp_clamped:
  "d \<noteq> NaN \<Longrightarrow> \<not> js_le d (Fin 0) \<Longrightarrow> v \<noteq> NaN \<Longrightarrow> clamped d v (clamp d v)"
  by (cases d; cases v) (auto simp: clamped_def clamp_def Math_min_def Math_max_def)

lemma clamp_NaN: "clamp d NaN = NaN"
  by (simp add: clamp_def Math_min_def Math_max_def)

lemma resolveAutopilot_off:
  "autopilot m = Some (AutopilotBool False) \<or> d = NaN \<or> js_le d (Fin 0) \<Longrightarrow>
     resolveAutopilot m (Some d) = \<lparr>expandDelayMs = None, collapseDelayMs = None\<rparr>"
  by (auto simp: resolveAutopilot_def falsy_def)

lemma resolveAutopilot_on:
  "autopilot m \<noteq> Some (AutopilotBool False) \<Longrightarrow> d \<noteq> NaN \<Longrightarrow> \<not> js_le d (Fin 0) \<Longrightarrow>
     resolveAutopilot m (Some d) =
       \<lparr>expandDelayMs = Some (clamp d (nullish (case autopilot m of Some (AutopilotCfg a b) \<Rightarrow> a | _ \<Rightarrow> None) (Fin AUTO_EXPAND_DELAY))),
        collapseDelayMs = Some (clamp d (nullish (case autopilot m of Some (AutopilotCfg a b) \<Rightarrow> b | _ \<Rightarrow> None) (Fin AUTO_COLLAPSE_DELAY)))\<rparr>"
proof -
  assume a: "autopilot m \<noteq> Some (AutopilotBool False)" and n: "d \<noteq> NaN" and p: "\<not> js_le d (Fin 0)"
  from n p have "\<not> falsy d" by (cases d) (auto simp: falsy_def)
  with a p show ?thesis by (simp add: resolveAutopilot_def Let_def)
qed

lemma clamp_cases:
  assumes "d \<noteq> NaN" and "\<not> js_le d (Fin 0)"
  shows "if v = NaN then clamp d v = NaN else clamped d v (clamp d v)"
  using assms by (simp add: clamp_NaN clamp_clamped)

lemma delays_okI:
  assumes e: "autoExpandDelayMs t = expandDelayMs (resolveAutopilot m (Some (item_duration t)))"
    and c: "autoCollapseDelayMs t = collapseDelayMs (resolveAutopilot m (Some (item_duration t)))"
    and p: "autopilot m = autopilot t"
  shows "delays_ok t"
proof (cases "autopilot t = Some (AutopilotBool False) \<or> item_duration t = NaN \<or>
              js_le (item_duration t) (Fin 0)")
  case True
  then have "resolveAutopilot m (Some (item_duration t)) = \<lparr>expandDelayMs = None, collapseDelayMs = None\<rparr>"
    by (intro resolveAutopilot_off) (simp add: p)
  then show ?thesis using True by (simp add: delays_ok_def Let_def e c)
next
  case False
  then have on: "autopilot m \<noteq> Some (AutopilotBool False)" "item_duration t \<noteq> NaN"
    "\<not> js_le (item_duration t) (Fin 0)"
    by (auto simp: p)
  let ?ve = "nullish (case autopilot t of Some (AutopilotCfg a b) \<Rightarrow> a | _ \<Rightarrow> None) (Fin AUTO_EXPAND_DELAY)"
  let ?vc = "nullish (case autopilot t of Some (AutopilotCfg a b) \<Rightarrow> b | _ \<Rightarrow> None) (Fin AUTO_COLLAPSE_DELAY)"
  have ra: "resolveAutopilot m (Some (item_duration t)) =
      \<lparr>expandDelayMs = Some (clamp (item_duration t) ?ve),
       collapseDelayMs = Some (clamp (item_duration t) ?vc)\<rparr>"
    using resolveAutopilot_on[OF on] by (simp add: p)
  have x: "if ?ve = NaN then clamp (item_duration t) ?ve = NaN
           else clamped (item_duration t) ?ve (clamp (item_duration t) ?ve)"
    by (rule clamp_cases[OF on(2,3)])
  have y: "if ?vc = NaN then clamp (item_duration t) ?vc = NaN
           else clamped (item_duration t) ?vc (clamp (item_duration t) ?vc)"
    by (rule clamp_cases[OF on(2,3)])
  have "\<exists>x y. autoExpandDelayMs t = Some x \<and> autoCollapseDelayMs t = Some y \<and>
                   (if ?ve = NaN then x = NaN else clamped (item_duration t) ?ve x) \<and>
                   (if ?vc = NaN then y = NaN else clamped (item_duration t) ?vc y)"
    unfolding e c ra using x y by simp
  with False show ?thesis unfolding delays_ok_def Let_def by blast
qed

lemma build_item_delays:
  "delays_ok (build_item m i inst pos
     (resolveAutopilot m (Some (nullish_null (duration m) (Fin DEFAULT_DURATION)))))"
  by (rule delays_okI[where m = m]) (simp_all add: build_item_def item_duration_def)

text \<open>
  Claim C10 as stated fails where a number is NaN. A record created with duration 3000
  and the autopilot override \<open>{expand: NaN}\<close> stores NaN as its expand delay, which lies
  in no interval; a record created with a NaN duration, which is neither null nor 0 nor
  negative, stores no delays although autopilot is not switched off.
\<close>

theorem autopilot_nan_counterexample:
  "item_duration (hd (toasts (snd (createToast (internal ex_opts_nan_override None None)
                                     ex_e1 ex_e2 (initial TopRight None))))) = Fin 3000 \<and>
   autoExpandDelayMs (hd (toasts (snd (createToast (internal ex_opts_nan_override None None)
                                         ex_e1 ex_e2 (initial TopRight None))))) = Some NaN \<and>
   \<not> js_le (Fin 0) NaN \<and> \<not> js_le NaN (Fin 3000) \<and>
   item_duration (hd (toasts (snd (createToast (internal ex_opts_nan_duration None None)
                                     ex_e1 ex_e2 (initial TopRight None))))) = NaN \<and>
   autopilot (hd (toasts (snd (createToast (internal ex_opts_nan_duration None None)
                                 ex_e1 ex_e2 (initial TopRight None))))) = None \<and>
   autoExpandDelayMs (hd (toasts (snd (createToast (internal ex_opts_nan_duration None None)
                                         ex_e1 ex_e2 (initial TopRight None))))) = None \<and>
   autoCollapseDelayMs (hd (toasts (snd (createToast (internal ex_opts_nan_duration None None)
                                           ex_e1 ex_e2 (initial TopRight None))))) = None \<and>
   \<not> js_le NaN (Fin 0) \<and> NaN \<noteq> Fin 0"
  by code_simp

text \<open>
  Claim C10, amended. Every record that \<open>createToast\<close> stores, and every record that
  \<open>updateToast\<close> puts in place of the records of its id, satisfies \<open>delays_ok\<close> for its
  resolved duration \<open>item.duration ?? DEFAULT_DURATION\<close>, which is the duration
  \<open>createToast\<close> returns: both delays are absent exactly when autopilot is false or that
  duration is 0, negative or NaN; otherwise both are present, and each is its override, or
  the default, clamped into the interval from 0 to the duration, or is NaN when the
  override is NaN. A \<open>null\<close> duration handed to \<open>resolveAutopilot\<close> gives no delays.
\<close>

theorem autopilot_delays_resolved:
  "((t \<in> set (toasts (snd (createToast options e1 e2 w))) \<or>
     (t \<in> set (toasts (updateToast i options e w)) \<and> id_t t = i))
      \<longrightarrow> delays_ok t) \<and>
   (t \<in> set (toasts (snd (createToast options e1 e2 w)))
      \<longrightarrow> item_duration t = snd (fst (createToast options e1 e2 w))) \<and>
   expandDelayMs (resolveAutopilot m None) = None \<and>
   collapseDelayMs (resolveAutopilot m None) = None"
proof -
  obtain item c1 pos where
    r: "snd (createToast options e1 e2 w) = store_update (\<lambda>_. [item]) (w\<lparr>idCounter := Suc c1\<rparr>)"
    and b: "item = build_item (merge_options (store_options w) options)
                  (fst (fst (createToast options e1 e2 w))) (fst (generateId c1 e2)) pos
                  (resolveAutopilot (merge_options (store_options w) options)
                     (Some (nullish_null (duration (merge_options (store_options w) options))
                              (Fin DEFAULT_DURATION))))"
    by (rule createToast_shape)
  have c_ok: "delays_ok item" unfolding b by (rule build_item_delays)
  have c_in: "t = item" if "t \<in> set (toasts (snd (createToast options e1 e2 w)))"
    using that by (simp add: r)
  have "snd (fst (createToast options e1 e2 w)) =
          nullish_null (duration (merge_options (store_options w) options)) (Fin DEFAULT_DURATION)"
    unfolding createToast_def Let_def split_beta by simp
  moreover have "item_duration item =
          nullish_null (duration (merge_options (store_options w) options)) (Fin DEFAULT_DURATION)"
    by (subst b) (simp add: item_duration_def build_item_def)
  ultimately have c_dur: "item_duration item = snd (fst (createToast options e1 e2 w))" by simp
  have u_ok: "delays_ok t"
    if t: "t \<in> set (toasts (updateToast i options e w))" "id_t t = i"
  proof -
    have "\<exists>x\<in>set (toasts w). id_t x = i"
    proof (rule ccontr)
      assume n: "\<not> (\<exists>x\<in>set (toasts w). id_t x = i)"
      then have "updateToast i options e w = w" by (intro update_noop) simp
      with t n show False by auto
    qed
    then obtain existing where "find_first (\<lambda>t. id_t t = i) (toasts w) = Some existing"
      by (cases "find_first (\<lambda>t. id_t t = i) (toasts w)") (auto simp: find_first_None_iff)
    then obtain item' pos' where
      u: "updateToast i options e w =
       store_update (map (\<lambda>t. if id_t t = i then item' else t)) (w\<lparr>idCounter := Suc (idCounter w)\<rparr>)"
      and b': "item' = build_item (merge_options (store_options w) options) i
                  (fst (generateId (idCounter w) e)) pos'
                  (resolveAutopilot (merge_options (store_options w) options)
                     (Some (nullish_null (duration (merge_options (store_options w) options))
                              (Fin DEFAULT_DURATION))))"
      by (rule updateToast_shape)
    from t(1,2) have "t = item'" by (auto simp: u split: if_splits)
    then show ?thesis unfolding b' by (simp add: build_item_delays)
  qed
  have n: "expandDelayMs (resolveAutopilot m None) = None \<and>
           collapseDelayMs (resolveAutopilot m None) = None"
    by (simp add: resolveAutopilot_def)
  from c_ok c_in c_dur u_ok n show ?thesis by blast
qed

theorem autopilot_delays_resolved_witness:
  "hd (toasts (snd (createToast (internal ex_opts_auto None None) ex_e3 ex_e4 ex_world1)))
     \<in> set (toasts (snd (createToast (internal ex_opts_auto None None) ex_e3 ex_e4 ex_world1))) \<and>
   autoExpandDelayMs (hd (toasts (snd (createToast (internal ex_opts_auto None None) ex_e3 ex_e4 ex_world1)))) = Some (Fin 0) \<and>
   autoCollapseDelayMs (hd (toasts (snd (createToast (internal ex_opts_auto None None) ex_e3 ex_e4 ex_world1)))) = Some (Fin 3000)"
proof -
  let ?W = "snd (createToast (internal ex_opts_auto None None) ex_e3 ex_e4 ex_world1)"
  let ?t = "hd (toasts ?W)"
  have a: "?t \<in> set (toasts ?W)" by code_simp
  have d: "item_duration ?t = Fin 3000" by code_simp
  have p: "autopilot ?t = Some (AutopilotCfg (Some (Fin (- 5))) (Some (Fin 99999)))" by code_simp
  from a autopilot_delays_resolved[of ?t "internal ex_opts_auto None None" ex_e3 ex_e4 ex_world1]
  have ok: "delays_ok ?t" by blast
  then obtain x y where x: "autoExpandDelayMs ?t = Some x" and y: "autoCollapseDelayMs ?t = Some y"
    and cx: "clamped (Fin 3000) (Fin (- 5)) x" and cy: "clamped (Fin 3000) (Fin 99999) y"
    unfolding delays_ok_def d p by (auto simp: Let_def nullish_def)
  from cx have "x = Fin 0" by (simp add: clamped_def)
  moreover from cy have "y = Fin 3000" by (simp add: clamped_def)
  ultimately show ?thesis using a x y by simp
qed

section \<open>Dismiss timers of the viewport\<close>

lemma reachable_ex_world_hover: "reachable ex_world_hover"
  unfolding ex_world_hover_def ex_world1_def by (intro reachable.intros)

lemma length_filter_le_1:
  "distinct (map f xs) \<Longrightarrow> (\<forall>x\<in>set xs. \<forall>y\<in>set xs. P x \<and> P y \<longrightarrow> f x = f y)
     \<Longrightarrow> length (filter P xs) \<le> 1"
proof (induction xs)
  case Nil
  then show ?case by simp
next
  case (Cons a xs)
  show ?case
  proof (cases "P a")
    case True
    have "filter P xs = []"
    proof (rule ccontr)
      assume "filter P xs \<noteq> []"
      then obtain y where y: "y \<in> set xs" "P y"
        by (metis filter_False)
      have "a \<in> set (a # xs)" "y \<in> set (a # xs)" using y(1) by simp_all
      with True y(2) Cons.prems(2) have "f a = f y" by blast
      moreover from Cons.prems(1) have "f a \<notin> f ` set xs" by simp
      ultimately show False using y(1) by blast
    qed
    with True show ?thesis by simp
  next
    case False
    from Cons.prems(1) have d: "distinct (map f xs)" by simp
    from Cons.prems(2) have "\<forall>x\<in>set xs. \<forall>y\<in>set xs. P x \<and> P y \<longrightarrow> f x = f y"
      by (meson list.set_intros(2))
    with d have "distinct (map f xs)"
      and "\<forall>x\<in>set xs. \<forall>y\<in>set xs. P x \<and> P y \<longrightarrow> f x = f y" by blast+
    then have "length (filter P xs) \<le> 1" by (rule Cons.IH)
    with False show ?thesis by simp
  qed
qed

lemma timers_for_le_1:
  assumes "inv_world w"
  shows "length (timers_for k w) \<le> 1"
proof -
  from assms have d: "distinct (map handle (pending w))" and dk: "distinct (map fst (timersRef w))"
    by (simp_all add: inv_world_def wf_timers_def)
  have "\<forall>x\<in>set (pending w). \<forall>y\<in>set (pending w).
          (is_dismiss x \<and> (k, handle x) \<in> set (timersRef w)) \<and>
          (is_dismiss y \<and> (k, handle y) \<in> set (timersRef w)) \<longrightarrow> handle x = handle y"
    using dk by (meson eq_key_imp_eq_value)
  from length_filter_le_1[OF d this] show ?thesis by (simp add: timers_for_def)
qed

lemma dismiss_timer_held:
  assumes "inv_world w" and "t \<in> set (pending w)" and "is_dismiss t"
  shows "\<exists>k. t \<in> set (timers_for k w)"
proof -
  from assms have "handle t \<in> snd ` set (timersRef w)" by (simp add: inv_world_def wf_timers_def)
  then obtain k where "(k, handle t) \<in> set (timersRef w)" by auto
  with assms(2,3) show ?thesis by (auto simp: timers_for_def)
qed

lemma hovered_no_dismiss:
  assumes "inv_world w" and "hoverRef w"
  shows "timersRef w = [] \<and> (\<forall>t\<in>set (pending w). \<not> is_dismiss t)"
proof -
  from assms have e: "timersRef w = []" by (simp add: inv_world_def)
  moreover have "\<not> is_dismiss t" if "t \<in> set (pending w)" for t
  proof
    assume "is_dismiss t"
    with assms(1) that have "handle t \<in> snd ` set (timersRef w)"
      by (simp add: inv_world_def wf_timers_def)
    with e show False by simp
  qed
  ultimately show ?thesis by blast
qed

text \<open>Scheduling one live item whose key is not held yet.\<close>

lemma schedule_item_new:
  assumes "\<not> exiting t" and "timeoutKey t \<notin> fst ` set (timersRef w)" and "\<not> js_le (item_duration t) (Fin 0)"
  shows "timersRef (schedule_item t w) = timersRef w @ [(timeoutKey t, nextHandle w)]"
    and "pending (schedule_item t w) =
           pending w @ [\<lparr>handle = nextHandle w, delay = item_duration t, callback = DismissCb (id_t t)\<rparr>]"
  using assms by (simp_all add: schedule_item_def item_duration_def Let_def split_beta)

lemma timers_for_new:
  assumes "\<forall>x\<in>set ps. handle x \<noteq> h"
  shows "filter (\<lambda>x. is_dismiss x \<and> (k, handle x) \<in> set [(k, h)])
           (ps @ [\<lparr>handle = h, delay = d, callback = DismissCb i\<rparr>])
         = [\<lparr>handle = h, delay = d, callback = DismissCb i\<rparr>]"
  using assms by (induction ps) (simp_all add: is_dismiss_def)


lemma drop_all_stale:
  assumes "\<forall>e\<in>set (timersRef w). fst e \<notin> set ks"
  shows "timersRef (fold (drop_stale ks) (timersRef w) w) = []"
    and "pending (fold (drop_stale ks) (timersRef w) w) =
           filter (\<lambda>t. handle t \<notin> snd ` set (timersRef w)) (pending w)"
proof -
  have "filter (\<lambda>e. \<forall>kt\<in>set (timersRef w). fst kt \<in> set ks \<or> fst e \<noteq> fst kt) (timersRef w) = []"
    using assms by (auto simp: filter_empty_conv)
  then show "timersRef (fold (drop_stale ks) (timersRef w) w) = []"
    by (simp only: timersRef_fold_drop_stale)
  have "filter (\<lambda>t. \<forall>kt\<in>set (timersRef w). fst kt \<in> set ks \<or> handle t \<noteq> snd kt) (pending w) =
        filter (\<lambda>t. handle t \<notin> snd ` set (timersRef w)) (pending w)"
    using assms by (intro filter_cong refl) (auto simp: image_iff)
  then show "pending (fold (drop_stale ks) (timersRef w) w) =
           filter (\<lambda>t. handle t \<notin> snd ` set (timersRef w)) (pending w)"
    by (simp only: pending_fold_drop_stale)
qed

lemma effect_replace:
  assumes keys: "\<forall>e\<in>set (timersRef w). fst e \<noteq> timeoutKey new"
    and t: "toasts w = [new]" and live: "\<not> exiting new"
  shows "hoverRef w \<or> js_le (item_duration new) (Fin 0) \<Longrightarrow> timersRef (timers_effect w) = []"
    and "hoverRef w \<or> js_le (item_duration new) (Fin 0) \<Longrightarrow>
           pending (timers_effect w) = filter (\<lambda>t. handle t \<notin> snd ` set (timersRef w)) (pending w)"
    and "\<not> hoverRef w \<Longrightarrow> \<not> js_le (item_duration new) (Fin 0) \<Longrightarrow>
           timersRef (timers_effect w) = [(timeoutKey new, nextHandle w)]"
    and "\<not> hoverRef w \<Longrightarrow> \<not> js_le (item_duration new) (Fin 0) \<Longrightarrow>
           pending (timers_effect w) =
             filter (\<lambda>t. handle t \<notin> snd ` set (timersRef w)) (pending w) @
             [\<lparr>handle = nextHandle w, delay = item_duration new, callback = DismissCb (id_t new)\<rparr>]"
proof -
  let ?w1 = "w\<lparr>listRef := toasts w\<rparr>"
  let ?ks = "map timeoutKey (toasts w)"
  let ?w2 = "fold (drop_stale ?ks) (timersRef ?w1) ?w1"
  have st: "\<forall>e\<in>set (timersRef ?w1). fst e \<notin> set ?ks" using keys by (simp add: t)
  have T2: "timersRef ?w2 = []" by (rule drop_all_stale(1)[OF st])
  have P2: "pending ?w2 = filter (\<lambda>t. handle t \<notin> snd ` set (timersRef w)) (pending w)"
    using drop_all_stale(2)[OF st] by simp
  have E: "timers_effect w = schedule [new] ?w2"
    by (simp add: timers_effect_def Let_def t)
  have H: "hoverRef ?w2 = hoverRef w" "nextHandle ?w2 = nextHandle w" by simp_all
  {
    assume "hoverRef w \<or> js_le (item_duration new) (Fin 0)"
    then have "schedule [new] ?w2 = ?w2"
      by (auto simp: schedule_def schedule_item_def H item_duration_def Let_def)
    then show "timersRef (timers_effect w) = []"
      and "pending (timers_effect w) = filter (\<lambda>t. handle t \<notin> snd ` set (timersRef w)) (pending w)"
      by (simp_all only: E T2 P2)
  }
  {
    assume nh: "\<not> hoverRef w" and d: "\<not> js_le (item_duration new) (Fin 0)"
    have k: "timeoutKey new \<notin> fst ` set (timersRef ?w2)" by (simp only: T2) simp
    have S: "schedule [new] ?w2 = schedule_item new ?w2"
      using nh by (simp add: schedule_def H)
    show "timersRef (timers_effect w) = [(timeoutKey new, nextHandle w)]"
      unfolding E S schedule_item_new(1)[OF live k d] T2 H by simp
    show "pending (timers_effect w) =
             filter (\<lambda>t. handle t \<notin> snd ` set (timersRef w)) (pending w) @
             [\<lparr>handle = nextHandle w, delay = item_duration new, callback = DismissCb (id_t new)\<rparr>]"
      unfolding E S schedule_item_new(2)[OF live k d] P2 H by simp
  }
qed


lemma timers_for_Nil: "k \<notin> fst ` set (timersRef w) \<Longrightarrow> timers_for k w = []"
  by (auto simp: timers_for_def filter_empty_conv image_iff)

lemma cleared_not_pending:
  "h \<in> S \<Longrightarrow> h \<notin> handle ` set (filter (\<lambda>t. handle t \<notin> S) ps)"
  by auto

lemma timer_replaced_effect:
  assumes inv: "inv_world w" and old: "toasts w = [old]" and same: "id_t new = id_t old"
    and diff: "instanceId new \<noteq> instanceId old" and live: "\<not> exiting new"
  shows "timer_replaced w (timers_effect (w\<lparr>idCounter := c, toasts := [new]\<rparr>)) old new"
proof -
  let ?w0 = "w\<lparr>idCounter := c, toasts := [new]\<rparr>"
  let ?w' = "timers_effect ?w0"
  let ?ps = "filter (\<lambda>t. handle t \<notin> snd ` set (timersRef w)) (pending w)"
  let ?tm = "\<lparr>handle = nextHandle w, delay = item_duration new, callback = DismissCb (id_t new)\<rparr>"
  have kne: "timeoutKey old \<noteq> timeoutKey new"
    using same diff by (simp add: timeoutKey_def)
  from inv old have ks: "\<forall>e\<in>set (timersRef w). fst e = timeoutKey old"
    by (auto simp: inv_world_def)
  then have keys: "\<forall>e\<in>set (timersRef ?w0). fst e \<noteq> timeoutKey new"
    using kne by simp
  have t0: "toasts ?w0 = [new]" by simp
  note er = effect_replace[OF keys t0 live]
  from inv have hs: "\<forall>e\<in>set (timersRef w). snd e < nextHandle w"
    and fresh: "\<forall>t\<in>set (pending w). handle t \<noteq> nextHandle w"
    by (simp_all add: inv_world_def wf_timers_def wf_fresh_handle)
  have fresh': "\<forall>t\<in>set ?ps. handle t \<noteq> nextHandle w" using fresh by simp
  show ?thesis
  proof (cases "hoverRef w \<or> js_le (item_duration new) (Fin 0)")
    case True
    then have c: "hoverRef ?w0 \<or> js_le (item_duration new) (Fin 0)" by simp
    have T: "timersRef ?w' = []" by (rule er(1)[OF c])
    have P: "pending ?w' = ?ps" using er(2)[OF c] by simp
    have a: "timeoutKey old \<notin> fst ` set (timersRef ?w')" by (simp only: T) simp
    have b: "timeoutKey new \<notin> fst ` set (timersRef ?w')" by (simp only: T) simp
    have g: "\<forall>h. (timeoutKey old, h) \<in> set (timersRef w) \<longrightarrow> h \<notin> handle ` set (pending ?w')"
    proof (intro allI impI)
      fix h assume h: "(timeoutKey old, h) \<in> set (timersRef w)"
      then have "h \<in> snd ` set (timersRef w)" by (metis image_eqI snd_conv)
      then show "h \<notin> handle ` set (pending ?w')" unfolding P by (rule cleared_not_pending)
    qed
    from True have nc: "\<not> (\<not> hoverRef w \<and> \<not> js_le (item_duration new) (Fin 0))" by auto
    from a g nc timers_for_Nil[OF a] timers_for_Nil[OF b] show ?thesis
      unfolding timer_replaced_def by blast
  next
    case False
    then have nh: "\<not> hoverRef ?w0" and d: "\<not> js_le (item_duration new) (Fin 0)" by simp_all
    have T: "timersRef ?w' = [(timeoutKey new, nextHandle w)]" using er(3)[OF nh d] by simp
    have P: "pending ?w' = ?ps @ [?tm]" using er(4)[OF nh d] by simp
    have a: "timeoutKey old \<notin> fst ` set (timersRef ?w')" using kne by (simp only: T) simp
    have g: "\<forall>h. (timeoutKey old, h) \<in> set (timersRef w) \<longrightarrow> h \<notin> handle ` set (pending ?w')"
    proof (intro allI impI)
      fix h assume h: "(timeoutKey old, h) \<in> set (timersRef w)"
      then have "h \<in> snd ` set (timersRef w)" by (metis image_eqI snd_conv)
      moreover from h hs have "h \<noteq> nextHandle w" by auto
      ultimately show "h \<notin> handle ` set (pending ?w')"
        unfolding P using cleared_not_pending[of h "snd ` set (timersRef w)" "pending w"] by simp
    qed
    have n: "timers_for (timeoutKey new) ?w' = [?tm]"
      unfolding timers_for_def T P by (rule timers_for_new[OF fresh'])
    from a g n False timers_for_Nil[OF a] show ?thesis
      unfolding timer_replaced_def by blast
  qed
qed

lemma find_first_single:
  "find_first p xs = Some x \<Longrightarrow> length xs \<le> 1 \<Longrightarrow> xs = [x] \<and> p x"
  by (cases xs) (auto split: if_splits)

text \<open>
  Claim C9. In a reachable state, the pointer entering leaves the viewport hovered with
  no timer held and no dismiss timer pending. In every reachable hovered state no timer
  is held, no dismiss timer is pending (so none can fire) and \<open>schedule\<close> changes
  nothing. The pointer leaving ends the hover and schedules, for every notification that
  is not exiting and of whose resolved duration the test \<open>dur <= 0\<close> fails (a positive
  duration; the test also fails of NaN), one timer under its key, with a new handle and
  the full resolved duration as its delay.
\<close>

theorem hover_pauses_dismiss_timers:
  assumes "reachable w"
  shows "hoverRef (handleMouseEnter w) \<and> timersRef (handleMouseEnter w) = [] \<and>
         (\<forall>t\<in>set (pending (handleMouseEnter w)). \<not> is_dismiss t) \<and>
         (hoverRef w \<longrightarrow>
            timersRef w = [] \<and> (\<forall>t\<in>set (pending w). \<not> is_dismiss t) \<and>
            (\<forall>items. schedule items w = w) \<and>
            \<not> hoverRef (handleMouseLeave w) \<and>
            (\<forall>t\<in>set (toasts w). \<not> exiting t \<and> \<not> js_le (item_duration t) (Fin 0) \<longrightarrow>
               timers_for (timeoutKey t) (handleMouseLeave w) =
                 [\<lparr>handle = nextHandle w, delay = item_duration t, callback = DismissCb (id_t t)\<rparr>]))"
proof -
  have inv: "inv_world w" by (rule reachable_inv[OF assms])
  have inv': "inv_world (handleMouseEnter w)" by (rule inv_handleMouseEnter[OF inv])
  have h': "hoverRef (handleMouseEnter w)" by (simp add: handleMouseEnter_def)
  note A = h' hovered_no_dismiss[OF inv' h']
  have B: "timersRef w = [] \<and> (\<forall>t\<in>set (pending w). \<not> is_dismiss t) \<and>
            (\<forall>items. schedule items w = w) \<and>
            \<not> hoverRef (handleMouseLeave w) \<and>
            (\<forall>t\<in>set (toasts w). \<not> exiting t \<and> \<not> js_le (item_duration t) (Fin 0) \<longrightarrow>
               timers_for (timeoutKey t) (handleMouseLeave w) =
                 [\<lparr>handle = nextHandle w, delay = item_duration t, callback = DismissCb (id_t t)\<rparr>])"
    if h: "hoverRef w"
  proof -
    note nd = hovered_no_dismiss[OF inv h]
    have s: "\<forall>items. schedule items w = w" using h by (simp add: schedule_def)
    let ?w1 = "w\<lparr>hoverRef := False\<rparr>"
    have L: "handleMouseLeave w = schedule (toasts w) ?w1"
      using h inv by (simp add: handleMouseLeave_def Let_def inv_world_def)
    have nh: "\<not> hoverRef (handleMouseLeave w)" unfolding L by simp
    have tf: "timers_for (timeoutKey t) (handleMouseLeave w) =
                 [\<lparr>handle = nextHandle w, delay = item_duration t, callback = DismissCb (id_t t)\<rparr>]"
      if t: "t \<in> set (toasts w)" "\<not> exiting t" "\<not> js_le (item_duration t) (Fin 0)" for t
    proof -
      from inv have "length (toasts w) \<le> 1" by (simp add: inv_world_def)
      with t(1) have tw: "toasts w = [t]" by (cases "toasts w") auto
      have k: "timeoutKey t \<notin> fst ` set (timersRef ?w1)" using nd by simp
      have S: "handleMouseLeave w = schedule_item t ?w1"
        unfolding L tw by (simp add: schedule_def)
      have T: "timersRef (handleMouseLeave w) = [(timeoutKey t, nextHandle w)]"
        unfolding S schedule_item_new(1)[OF t(2) k t(3)] using nd by simp
      have P: "pending (handleMouseLeave w) =
          pending w @ [\<lparr>handle = nextHandle w, delay = item_duration t, callback = DismissCb (id_t t)\<rparr>]"
        unfolding S schedule_item_new(2)[OF t(2) k t(3)] by simp
      show ?thesis
        unfolding timers_for_def T P by (rule timers_for_new[OF wf_fresh_handle[OF inv]])
    qed
    from nd s nh tf show ?thesis by blast
  qed
  from A B show ?thesis by blast
qed


theorem hover_pauses_dismiss_timers_witness:
  "hoverRef ex_world_hover \<and> timersRef ex_world_hover = [] \<and>
   filter is_dismiss (pending ex_world_hover) = [] \<and>
   timers_for ''1-lx0-a1b2c3:2-lx0-d4e5f6'' (handleMouseLeave ex_world_hover) =
     [\<lparr>handle = 2, delay = Fin 3000, callback = DismissCb ''1-lx0-a1b2c3''\<rparr>]"
proof -
  have h: "hoverRef ex_world_hover" by code_simp
  have m: "ex_item1 \<in> set (toasts ex_world_hover)" by code_simp
  have l: "\<not> exiting ex_item1 \<and> \<not> js_le (item_duration ex_item1) (Fin 0)" by code_simp
  have v: "timeoutKey ex_item1 = ''1-lx0-a1b2c3:2-lx0-d4e5f6''" "nextHandle ex_world_hover = 2"
    "item_duration ex_item1 = Fin 3000" "id_t ex_item1 = ''1-lx0-a1b2c3''"
    by code_simp+
  from hover_pauses_dismiss_timers[OF reachable_ex_world_hover] h
  have "timersRef ex_world_hover = [] \<and> (\<forall>t\<in>set (pending ex_world_hover). \<not> is_dismiss t) \<and>
        (\<forall>t\<in>set (toasts ex_world_hover). \<not> exiting t \<and> \<not> js_le (item_duration t) (Fin 0) \<longrightarrow>
           timers_for (timeoutKey t) (handleMouseLeave ex_world_hover) =
             [\<lparr>handle = nextHandle ex_world_hover, delay = item_duration t,
               callback = DismissCb (id_t t)\<rparr>])"
    by blast
  with m l h have "timersRef ex_world_hover = [] \<and>
        (\<forall>t\<in>set (pending ex_world_hover). \<not> is_dismiss t) \<and>
        timers_for (timeoutKey ex_item1) (handleMouseLeave ex_world_hover) =
             [\<lparr>handle = nextHandle ex_world_hover, delay = item_duration ex_item1,
               callback = DismissCb (id_t ex_item1)\<rparr>]"
    by blast
  then have "timersRef ex_world_hover = [] \<and>
        filter is_dismiss (pending ex_world_hover) = [] \<and>
        timers_for (timeoutKey ex_item1) (handleMouseLeave ex_world_hover) =
             [\<lparr>handle = nextHandle ex_world_hover, delay = item_duration ex_item1,
               callback = DismissCb (id_t ex_item1)\<rparr>]"
    by (simp add: filter_empty_conv)
  with h show ?thesis unfolding v by blast
qed

text \<open>
  Claim C8. In every reachable state each timeout key holds at most one pending dismiss
  timer, and every pending dismiss timer is held under a key. When \<open>updateToast\<close>
  replaces the record of an id, or \<open>createToast\<close> creates a record under the id of the
  record in the store, the new record has the same stable id and another instance id, and
  the timers change as \<open>timer_replaced\<close> says: the timer of the old key is cancelled and
  the new key gets a timer of its own (once the viewport is not hovered and the duration
  calls for one).
\<close>

theorem one_timer_per_key:
  assumes "reachable w"
  shows "(\<forall>k. length (timers_for k w) \<le> 1) \<and>
         (\<forall>t\<in>set (pending w). is_dismiss t \<longrightarrow> (\<exists>k. t \<in> set (timers_for k w))) \<and>
         (\<forall>old. find_first (\<lambda>t. id_t t = i) (toasts w) = Some old \<longrightarrow>
            (\<exists>new. toasts (updateToast i options e w) = [new] \<and> id_t new = id_t old \<and>
                   instanceId new \<noteq> instanceId old \<and>
                   timer_replaced w (updateToast i options e w) old new)) \<and>
         (\<forall>old. toasts w = [old] \<and> fst (fst (createToast options' e1 e2 w)) = id_t old \<longrightarrow>
            (\<exists>new. toasts (snd (createToast options' e1 e2 w)) = [new] \<and> id_t new = id_t old \<and>
                   instanceId new \<noteq> instanceId old \<and>
                   timer_replaced w (snd (createToast options' e1 e2 w)) old new))"
proof -
  have inv: "inv_world w" by (rule reachable_inv[OF assms])
  have A: "\<forall>k. length (timers_for k w) \<le> 1" using timers_for_le_1[OF inv] by blast
  have B: "\<forall>t\<in>set (pending w). is_dismiss t \<longrightarrow> (\<exists>k. t \<in> set (timers_for k w))"
    using dismiss_timer_held[OF inv] by blast
  have len: "length (toasts w) \<le> 1" using inv by (simp add: inv_world_def)
  have C: "\<exists>new. toasts (updateToast i options e w) = [new] \<and> id_t new = id_t old \<and>
                   instanceId new \<noteq> instanceId old \<and>
                   timer_replaced w (updateToast i options e w) old new"
    if f: "find_first (\<lambda>t. id_t t = i) (toasts w) = Some old" for old
  proof -
    from find_first_single[OF f len] have tw: "toasts w = [old]" and io: "id_t old = i" by simp_all
    from f obtain item pos where
      u: "updateToast i options e w =
       store_update (map (\<lambda>t. if id_t t = i then item else t)) (w\<lparr>idCounter := Suc (idCounter w)\<rparr>)"
      and inst: "instanceId item = fst (generateId (idCounter w) e)"
      and ii: "id_t item = i" and live: "\<not> exiting item"
      by (rule updateToast_shape)
    have u': "updateToast i options e w = timers_effect (w\<lparr>idCounter := Suc (idCounter w), toasts := [item]\<rparr>)"
      unfolding u store_update_def by (simp add: tw io)
    from inv tw have "minted (idCounter w) (instanceId old)" by (simp add: inv_world_def)
    then have diff: "instanceId item \<noteq> instanceId old"
      using minted_fresh[of "idCounter w" "instanceId old" e] inst by simp
    have same: "id_t item = id_t old" by (simp add: ii io)
    have "timer_replaced w (updateToast i options e w) old item"
      unfolding u' by (rule timer_replaced_effect[OF inv tw same diff live])
    moreover have "toasts (updateToast i options e w) = [item]" unfolding u' by simp
    ultimately show ?thesis using same diff by blast
  qed
  have D: "\<exists>new. toasts (snd (createToast options' e1 e2 w)) = [new] \<and> id_t new = id_t old \<and>
                   instanceId new \<noteq> instanceId old \<and>
                   timer_replaced w (snd (createToast options' e1 e2 w)) old new"
    if tw: "toasts w = [old]" and si: "fst (fst (createToast options' e1 e2 w)) = id_t old" for old
  proof -
    obtain item c1 where
      r: "snd (createToast options' e1 e2 w) = store_update (\<lambda>_. [item]) (w\<lparr>idCounter := Suc c1\<rparr>)"
      and c: "idCounter w \<le> c1"
      and inst: "instanceId item = fst (generateId c1 e2)"
      and ii: "id_t item = fst (fst (createToast options' e1 e2 w))"
      and live: "\<not> exiting item"
      by (rule createToast_shape)
    have r': "snd (createToast options' e1 e2 w) = timers_effect (w\<lparr>idCounter := Suc c1, toasts := [item]\<rparr>)"
      unfolding r store_update_def by simp
    from inv tw have "minted (idCounter w) (instanceId old)" by (simp add: inv_world_def)
    then have "minted c1 (instanceId old)" using c by (rule minted_mono)
    then have diff: "instanceId item \<noteq> instanceId old"
      using minted_fresh[of c1 "instanceId old" e2] inst by simp
    have same: "id_t item = id_t old" by (simp add: ii si)
    have "timer_replaced w (snd (createToast options' e1 e2 w)) old item"
      unfolding r' by (rule timer_replaced_effect[OF inv tw same diff live])
    moreover have "toasts (snd (createToast options' e1 e2 w)) = [item]" unfolding r' by simp
    ultimately show ?thesis using same diff by blast
  qed
  from A B C D show ?thesis by blast
qed

theorem one_timer_per_key_witness:
  "length (timers_for ''1-lx0-a1b2c3:2-lx0-d4e5f6'' ex_world1) \<le> 1 \<and>
   (\<exists>new. toasts (updateToast ''1-lx0-a1b2c3'' (internal ex_opts2 (Some ''1-lx0-a1b2c3'') (Some Success))
                    ex_e3 ex_world1) = [new] \<and>
          instanceId new \<noteq> ''2-lx0-d4e5f6'' \<and>
          timers_for ''1-lx0-a1b2c3:2-lx0-d4e5f6''
            (updateToast ''1-lx0-a1b2c3'' (internal ex_opts2 (Some ''1-lx0-a1b2c3'') (Some Success))
               ex_e3 ex_world1) = [])"
proof -
  let ?i = "''1-lx0-a1b2c3''"
  let ?o = "internal ex_opts2 (Some ?i) (Some Success)"
  have f: "find_first (\<lambda>t. id_t t = ?i) (toasts ex_world1) = Some ex_item1" by code_simp
  have v: "timeoutKey ex_item1 = ''1-lx0-a1b2c3:2-lx0-d4e5f6''" "instanceId ex_item1 = ''2-lx0-d4e5f6''"
    by code_simp+
  from one_timer_per_key[OF reachable_ex_world1, of ?i ?o ex_e3] f
  have a: "length (timers_for ''1-lx0-a1b2c3:2-lx0-d4e5f6'' ex_world1) \<le> 1"
    and "\<exists>new. toasts (updateToast ?i ?o ex_e3 ex_world1) = [new] \<and> id_t new = id_t ex_item1 \<and>
                   instanceId new \<noteq> instanceId ex_item1 \<and>
                   timer_replaced ex_world1 (updateToast ?i ?o ex_e3 ex_world1) ex_item1 new"
    by blast+
  then show ?thesis unfolding timer_replaced_def v by blast
qed

section \<open>Promise-driven notifications\<close>

lemma promise_begin_shape:
  obtains item where
    "toasts (snd (promise_begin opts e1 e2 w)) = [item]"
    and "id_t item = fst (promise_begin opts e1 e2 w)"
    and "state_t item = Some Loading" and "duration item = Some Null" and "\<not> exiting item"
    and "store_options (snd (promise_begin opts e1 e2 w)) = store_options w"
proof -
  let ?o = "\<lparr>title = title_l (loading opts), description = None, position = None,
               duration = Some Null, icon = icon_l (loading opts), styles = None, fill = None,
               roundness = None, autopilot = None, button = None,
               id_o = None, state_o = Some Loading\<rparr>"
  obtain item c1 pos where
    r: "snd (createToast ?o e1 e2 w) = store_update (\<lambda>_. [item]) (w\<lparr>idCounter := Suc c1\<rparr>)"
    and i: "id_t item = fst (fst (createToast ?o e1 e2 w))"
    and x: "\<not> exiting item"
    and b: "item = build_item (merge_options (store_options w) ?o)
                  (fst (fst (createToast ?o e1 e2 w))) (fst (generateId c1 e2)) pos
                  (resolveAutopilot (merge_options (store_options w) ?o)
                     (Some (nullish_null (duration (merge_options (store_options w) ?o))
                              (Fin DEFAULT_DURATION))))"
    by (rule createToast_shape)
  have pb: "promise_begin opts e1 e2 w = (fst (fst (createToast ?o e1 e2 w)), snd (createToast ?o e1 e2 w))"
    by (simp add: promise_begin_def split_beta)
  have st: "state_t item = Some Loading"
    by (subst b) (simp add: build_item_def merge_options_def Let_def)
  have du: "duration item = Some Null"
    by (subst b) (simp add: build_item_def merge_options_def Let_def spread_def)
  show ?thesis
    by (rule that[of item]) (simp_all add: pb r i x st du)
qed

lemma settle_fulfilled:
  "promise_settle opts i (Fulfilled d) e w =
     (Fulfilled d, Fulfilled (),
      updateToast i (internal (resolve_options (case action opts of Some a \<Rightarrow> a | None \<Rightarrow> success opts) d)
                       (Some i) (Some (if action opts = None then Success else Action))) e w)"
  by (simp add: promise_settle_def then_p_def catch_p_def on_fulfilled_def split: option.splits)

lemma settle_rejected:
  "promise_settle opts i (Rejected err) e w =
     (Rejected err, Fulfilled (),
      updateToast i (internal (resolve_options (error opts) err) (Some i) (Some Error)) e w)"
  by (simp add: promise_settle_def then_p_def catch_p_def on_rejected_def)

lemma update_in_place:
  assumes "\<exists>t\<in>set (toasts w). id_t t = i"
  shows "\<exists>inst pos auto.
           toasts (updateToast i (internal o' (Some i) (Some st)) e w) =
             map (\<lambda>t. if id_t t = i
                       then build_item (merge_options (store_options w) (internal o' (Some i) (Some st)))
                              i inst pos auto
                       else t) (toasts w)"
proof -
  from assms obtain existing where "find_first (\<lambda>t. id_t t = i) (toasts w) = Some existing"
    by (cases "find_first (\<lambda>t. id_t t = i) (toasts w)") (auto simp: find_first_None_iff)
  then obtain item pos where
    u: "updateToast i (internal o' (Some i) (Some st)) e w =
       store_update (map (\<lambda>t. if id_t t = i then item else t)) (w\<lparr>idCounter := Suc (idCounter w)\<rparr>)"
    and b: "item = build_item (merge_options (store_options w) (internal o' (Some i) (Some st))) i
                  (fst (generateId (idCounter w) e)) pos
                  (resolveAutopilot (merge_options (store_options w) (internal o' (Some i) (Some st)))
                     (Some (nullish_null (duration (merge_options (store_options w) (internal o' (Some i) (Some st))))
                              (Fin DEFAULT_DURATION))))"
    by (rule updateToast_shape)
  have "toasts (updateToast i (internal o' (Some i) (Some st)) e w) =
          map (\<lambda>t. if id_t t = i then item else t) (toasts w)"
    unfolding u by simp
  then show ?thesis unfolding b by blast
qed

lemma build_item_id_state:
  "id_t (build_item (merge_options so (internal o' (Some i) (Some st))) i inst pos auto) = i"
  "state_t (build_item (merge_options so (internal o' (Some i) (Some st))) i inst pos auto) = Some st"
  by (simp_all add: build_item_def merge_options_def internal_def Let_def)


lemma settle_unknown:
  assumes "\<forall>t\<in>set (toasts w). id_t t \<noteq> i"
  shows "promise_settle opts i p e w = (p, Fulfilled (), w)"
proof (cases p)
  case (Fulfilled d)
  show ?thesis unfolding Fulfilled settle_fulfilled using update_noop[OF assms] by simp
next
  case (Rejected err)
  show ?thesis unfolding Rejected settle_rejected using update_noop[OF assms] by simp
qed

lemma update_in_place_new:
  assumes "\<exists>t\<in>set (toasts w). id_t t = i"
  shows "\<exists>new. toasts (updateToast i (internal o' (Some i) (Some st)) e w) =
                  map (\<lambda>t. if id_t t = i then new else t) (toasts w) \<and>
               id_t new = i \<and> state_t new = Some st \<and>
               (\<exists>inst pos auto. new = build_item (merge_options (store_options w) (internal o' (Some i) (Some st)))
                              i inst pos auto)"
proof -
  from update_in_place[OF assms, of o' st e] obtain inst pos auto where
    "toasts (updateToast i (internal o' (Some i) (Some st)) e w) =
             map (\<lambda>t. if id_t t = i
                       then build_item (merge_options (store_options w) (internal o' (Some i) (Some st)))
                              i inst pos auto
                       else t) (toasts w)" by blast
  then show ?thesis using build_item_id_state[of "store_options w" o' i st inst pos auto] by blast
qed

text \<open>
  The life cycle of a promise-driven notification as long as its record is in the store.
  \<open>promise_begin\<close>, the synchronous part of \<open>sileo.promise\<close>, leaves the store holding one
  record, with the returned id, state loading and the stored duration \<open>null\<close>. Settling
  right after it, a fulfilled promise replaces that record by one with the same id, in state
  action when \<open>opts.action\<close> is configured and success otherwise, built from the static
  options or from the options the configured function returns for the value; a rejected
  one replaces it by a record in state error built from the error options likewise, the
  function being applied to the rejection value. In both cases the caller's promise settles
  as \<open>p\<close> did, and the chain \<open>p.then(...).catch(...)\<close> ends fulfilled: the rejection goes
  no further. Settling in any later state updates the records of that id in place, and
  does nothing when no record carries the id any more.
\<close>

lemma promise_lifecycle:
  fixes opts :: "('a, 'e) ToastPromiseOptions"
  shows
  "let i = fst (promise_begin opts e1 e2 w);
       w1 = snd (promise_begin opts e1 e2 w);
       src = (case action opts of Some a \<Rightarrow> a | None \<Rightarrow> success opts);
       st = (if action opts = None then Success else Action)
   in (\<exists>item. toasts w1 = [item] \<and> id_t item = i \<and> state_t item = Some Loading \<and>
              duration item = Some Null \<and> \<not> exiting item) \<and>
      (\<forall>d. fst (promise_settle opts i (Fulfilled d) e w1) = Fulfilled d \<and>
           fst (snd (promise_settle opts i (Fulfilled d) e w1)) = Fulfilled () \<and>
           (\<exists>new. toasts (snd (snd (promise_settle opts i (Fulfilled d) e w1))) = [new] \<and>
                  id_t new = i \<and> state_t new = Some st \<and>
                  (\<exists>inst pos auto.
                     new = build_item
                             (merge_options (store_options w)
                                (internal (case src of Static so \<Rightarrow> so | Computed f \<Rightarrow> f d)
                                   (Some i) (Some st)))
                             i inst pos auto))) \<and>
      (\<forall>err. fst (promise_settle opts i (Rejected err) e w1) = Rejected err \<and>
           fst (snd (promise_settle opts i (Rejected err) e w1)) = Fulfilled () \<and>
           (\<exists>new. toasts (snd (snd (promise_settle opts i (Rejected err) e w1))) = [new] \<and>
                  id_t new = i \<and> state_t new = Some Error \<and>
                  (\<exists>inst pos auto.
                     new = build_item
                             (merge_options (store_options w)
                                (internal (case error opts of Static so \<Rightarrow> so | Computed f \<Rightarrow> f err)
                                   (Some i) (Some Error)))
                             i inst pos auto))) \<and>
      (\<forall>w' d. (\<exists>t\<in>set (toasts w'). id_t t = i) \<longrightarrow>
           (\<exists>new. toasts (snd (snd (promise_settle opts i (Fulfilled d) e w'))) =
                    map (\<lambda>t. if id_t t = i then new else t) (toasts w') \<and>
                  id_t new = i \<and> state_t new = Some st)) \<and>
      (\<forall>w' err. (\<exists>t\<in>set (toasts w'). id_t t = i) \<longrightarrow>
           (\<exists>new. toasts (snd (snd (promise_settle opts i (Rejected err) e w'))) =
                    map (\<lambda>t. if id_t t = i then new else t) (toasts w') \<and>
                  id_t new = i \<and> state_t new = Some Error)) \<and>
      (\<forall>w' p. (\<forall>t\<in>set (toasts w'). id_t t \<noteq> i) \<longrightarrow>
           promise_settle opts i p e w' = (p, Fulfilled (), w'))"
proof -
  define i where "i = fst (promise_begin opts e1 e2 w)"
  define w1 where "w1 = snd (promise_begin opts e1 e2 w)"
  define src where "src = (case action opts of Some a \<Rightarrow> a | None \<Rightarrow> success opts)"
  define st where "st = (if action opts = None then Success else Action)"
  obtain item where it: "toasts w1 = [item]" "id_t item = i" "state_t item = Some Loading"
    "duration item = Some Null" "\<not> exiting item" and so: "store_options w1 = store_options w"
    unfolding i_def w1_def by (rule promise_begin_shape)
  have A: "\<exists>item. toasts w1 = [item] \<and> id_t item = i \<and> state_t item = Some Loading \<and>
              duration item = Some Null \<and> \<not> exiting item"
    using it by blast
  have ex1: "\<exists>t\<in>set (toasts w1). id_t t = i" using it by simp
  have one: "map (\<lambda>t. if id_t t = i then new else t) (toasts w1) = [new]" for new
    using it by simp
  have B: "fst (promise_settle opts i (Fulfilled d) e w1) = Fulfilled d \<and>
           fst (snd (promise_settle opts i (Fulfilled d) e w1)) = Fulfilled () \<and>
           (\<exists>new. toasts (snd (snd (promise_settle opts i (Fulfilled d) e w1))) = [new] \<and>
                  id_t new = i \<and> state_t new = Some st \<and>
                  (\<exists>inst pos auto.
                     new = build_item
                             (merge_options (store_options w)
                                (internal (case src of Static so \<Rightarrow> so | Computed f \<Rightarrow> f d)
                                   (Some i) (Some st)))
                             i inst pos auto))" for d
    using update_in_place_new[OF ex1, of "resolve_options src d" st e]
    unfolding settle_fulfilled src_def[symmetric] st_def[symmetric] one so resolve_options_def
    by simp
  have C: "fst (promise_settle opts i (Rejected err) e w1) = Rejected err \<and>
           fst (snd (promise_settle opts i (Rejected err) e w1)) = Fulfilled () \<and>
           (\<exists>new. toasts (snd (snd (promise_settle opts i (Rejected err) e w1))) = [new] \<and>
                  id_t new = i \<and> state_t new = Some Error \<and>
                  (\<exists>inst pos auto.
                     new = build_item
                             (merge_options (store_options w)
                                (internal (case error opts of Static so \<Rightarrow> so | Computed f \<Rightarrow> f err)
                                   (Some i) (Some Error)))
                             i inst pos auto))" for err
    using update_in_place_new[OF ex1, of "resolve_options (error opts) err" Error e]
    unfolding settle_rejected one so resolve_options_def by simp
  have D: "\<exists>new. toasts (snd (snd (promise_settle opts i (Fulfilled d) e w'))) =
                    map (\<lambda>t. if id_t t = i then new else t) (toasts w') \<and>
                  id_t new = i \<and> state_t new = Some st"
    if "\<exists>t\<in>set (toasts w'). id_t t = i" for w' d
    using update_in_place_new[OF that, of "resolve_options src d" st e]
    unfolding settle_fulfilled src_def[symmetric] st_def[symmetric] by auto
  have E: "\<exists>new. toasts (snd (snd (promise_settle opts i (Rejected err) e w'))) =
                    map (\<lambda>t. if id_t t = i then new else t) (toasts w') \<and>
                  id_t new = i \<and> state_t new = Some Error"
    if "\<exists>t\<in>set (toasts w'). id_t t = i" for w' err
    using update_in_place_new[OF that, of "resolve_options (error opts) err" Error e]
    unfolding settle_rejected by auto
  have F: "promise_settle opts i p e w' = (p, Fulfilled (), w')"
    if "\<forall>t\<in>set (toasts w'). id_t t \<noteq> i" for w' p
    by (rule settle_unknown[OF that])
  from A B C D E F show ?thesis
    unfolding Let_def i_def[symmetric] w1_def[symmetric] src_def[symmetric] st_def[symmetric]
    by blast
qed


lemma promise_lifecycle_example:
  "(\<exists>new. toasts (snd (snd (promise_settle ex_promise_opts
                  (fst (promise_begin ex_promise_opts ex_e1 ex_e2 (initial TopRight None)))
                  (Rejected ''timeout'') ex_e3
                  (snd (promise_begin ex_promise_opts ex_e1 ex_e2 (initial TopRight None)))))) = [new] \<and>
          id_t new = ''1-lx0-a1b2c3'' \<and> state_t new = Some Error \<and>
          description new = Some ''timeout'') \<and>
   promise_settle ex_promise_opts
      (fst (promise_begin ex_promise_opts ex_e1 ex_e2 (initial TopRight None)))
      (Rejected ''timeout'') ex_e3 (initial TopRight None)
     = (Rejected ''timeout'', Fulfilled (), initial TopRight None)"
proof -
  let ?w = "initial TopRight None"
  let ?i = "fst (promise_begin ex_promise_opts ex_e1 ex_e2 ?w)"
  let ?w1 = "snd (promise_begin ex_promise_opts ex_e1 ex_e2 ?w)"
  let ?M = "merge_options (store_options ?w)
              (internal (case error ex_promise_opts of Static so \<Rightarrow> so | Computed f \<Rightarrow> f ''timeout'')
                 (Some ?i) (Some Error))"
  have i: "?i = ''1-lx0-a1b2c3''" by code_simp
  have t: "description ?M = Some ''timeout''" by code_simp
  have u: "\<forall>t\<in>set (toasts ?w). id_t t \<noteq> ?i" by code_simp
  note P = promise_lifecycle[of ex_promise_opts ex_e1 ex_e2 ?w ex_e3, unfolded Let_def]
  from P have "\<forall>err. fst (promise_settle ex_promise_opts ?i (Rejected err) ex_e3 ?w1) = Rejected err \<and>
           fst (snd (promise_settle ex_promise_opts ?i (Rejected err) ex_e3 ?w1)) = Fulfilled () \<and>
           (\<exists>new. toasts (snd (snd (promise_settle ex_promise_opts ?i (Rejected err) ex_e3 ?w1))) = [new] \<and>
                  id_t new = ?i \<and> state_t new = Some Error \<and>
                  (\<exists>inst pos auto.
                     new = build_item
                             (merge_options (store_options ?w)
                                (internal (case error ex_promise_opts of Static so \<Rightarrow> so | Computed f \<Rightarrow> f err)
                                   (Some ?i) (Some Error)))
                             ?i inst pos auto))"
    by (elim conjE)
  then obtain new inst pos auto where
    n: "toasts (snd (snd (promise_settle ex_promise_opts ?i (Rejected ''timeout'') ex_e3 ?w1))) = [new]"
      "id_t new = ?i" "state_t new = Some Error"
      "new = build_item ?M ?i inst pos auto"
    by blast
  have "description new = description ?M"
    unfolding n(4) by (simp only: build_item_def ToastOptions.select_convs)
  then have tn: "description new = Some ''timeout''" by (simp only: t)
  have idn: "id_t new = ''1-lx0-a1b2c3''" using n(2) by (simp only: i)
  have A: "\<exists>new. toasts (snd (snd (promise_settle ex_promise_opts ?i (Rejected ''timeout'') ex_e3 ?w1))) = [new] \<and>
          id_t new = ''1-lx0-a1b2c3'' \<and> state_t new = Some Error \<and>
          description new = Some ''timeout''"
    by (intro exI[of _ new] conjI) (rule n(1), rule idn, rule n(3), rule tn)
  from P have "\<forall>w' p. (\<forall>t\<in>set (toasts w'). id_t t \<noteq> ?i) \<longrightarrow>
           promise_settle ex_promise_opts ?i p ex_e3 w' = (p, Fulfilled (), w')"
    by (elim conjE)
  with u have B: "promise_settle ex_promise_opts ?i (Rejected ''timeout'') ex_e3 ?w
     = (Rejected ''timeout'', Fulfilled (), ?w)"
    by blast
  from A B show ?thesis by blast
qed

text \<open>
  Claim C3. The loading record of \<open>sileo.promise\<close> is not persistent, and a promise that
  settles late updates nothing. On a freshly mounted viewport that is never hovered,
  \<open>promise_begin\<close> stores one record with the returned id, in state loading, with the
  stored duration \<open>null\<close>, and the viewport at once sets a dismiss timer of 6000 ms for it
  (\<open>item.duration ?? DEFAULT_DURATION\<close>); when that timer and then the exit timer have
  fired, the store is empty, and a promise that settles only then, fulfilled or rejected,
  leaves the state as it is: neither the success nor the error state is ever shown, while
  the caller's promise settles as \<open>p\<close> did and the chain ends fulfilled. A promise that
  settles while the record is still there replaces it under the same id: fulfilled, by a
  record in state success with the static success options; rejected, by a record in state
  error whose description is the rejection value, as the configured function returns it.
\<close>

theorem promise_loading_expires:
  "map (\<lambda>t. (id_t t, state_t t, duration t))
     (toasts (snd (promise_begin ex_promise_opts ex_e1 ex_e2 (initial TopRight None))))
     = [(''1-lx0-a1b2c3'', Some Loading, Some Null)] \<and>
   fst (promise_begin ex_promise_opts ex_e1 ex_e2 (initial TopRight None)) = ''1-lx0-a1b2c3'' \<and>
   pending (snd (promise_begin ex_promise_opts ex_e1 ex_e2 (initial TopRight None)))
     = [\<lparr>handle = 1, delay = Fin 6000, callback = DismissCb ''1-lx0-a1b2c3''\<rparr>] \<and>
   toasts (fire 2 (fire 1 (snd (promise_begin ex_promise_opts ex_e1 ex_e2 (initial TopRight None)))))
     = [] \<and>
   promise_settle ex_promise_opts ''1-lx0-a1b2c3'' (Fulfilled ''v'') ex_e3
       (fire 2 (fire 1 (snd (promise_begin ex_promise_opts ex_e1 ex_e2 (initial TopRight None)))))
     = (Fulfilled ''v'', Fulfilled (),
        fire 2 (fire 1 (snd (promise_begin ex_promise_opts ex_e1 ex_e2 (initial TopRight None))))) \<and>
   promise_settle ex_promise_opts ''1-lx0-a1b2c3'' (Rejected ''timeout'') ex_e3
       (fire 2 (fire 1 (snd (promise_begin ex_promise_opts ex_e1 ex_e2 (initial TopRight None)))))
     = (Rejected ''timeout'', Fulfilled (),
        fire 2 (fire 1 (snd (promise_begin ex_promise_opts ex_e1 ex_e2 (initial TopRight None))))) \<and>
   map (\<lambda>t. (id_t t, state_t t, title t, description t))
     (toasts (snd (snd (promise_settle ex_promise_opts ''1-lx0-a1b2c3'' (Fulfilled ''v'') ex_e3
        (snd (promise_begin ex_promise_opts ex_e1 ex_e2 (initial TopRight None)))))))
     = [(''1-lx0-a1b2c3'', Some Success, Some ''Done'', None)] \<and>
   map (\<lambda>t. (id_t t, state_t t, title t, description t))
     (toasts (snd (snd (promise_settle ex_promise_opts ''1-lx0-a1b2c3'' (Rejected ''timeout'') ex_e3
        (snd (promise_begin ex_promise_opts ex_e1 ex_e2 (initial TopRight None)))))))
     = [(''1-lx0-a1b2c3'', Some Error, Some ''Failed'', Some ''timeout'')]"
  by code_simp

section \<open>The widget: frozen height and expansion\<close>

lemma wstep_frozen [simp]: "frozenExpandedRef (wstep ev w) = frozenExpandedRef w"
  by (cases ev)
     (simp_all add: handleEnter_def handleLeave_def measure_content_def refresh_effect_def
        swap_timer_def handleTransitionEnd_def auto_effect_def auto_expand_timer_def
        auto_collapse_timer_def Let_def split: option.splits)

lemma open_w_render [simp]: "open_w (render w) = open_w w"
  by (simp add: render_def open_w_def hasDesc_def isLoading_def)







lemma render_fields [simp]: "view (render u) = view u" "contentHeight (render u) = contentHeight u"
  by (simp_all add: render_def)




lemma open_w_props [simp]: "open_w (u\<lparr>props := p\<rparr>) = open_w u"
  by (simp add: open_w_def hasDesc_def isLoading_def)





lemma timer_refs_irrelevant [simp]:
  "hasDesc (u\<lparr>autoExpandRef := a, autoCollapseRef := b\<rparr>) = hasDesc u"
  "isLoading (u\<lparr>autoExpandRef := a, autoCollapseRef := b\<rparr>) = isLoading u"
  "allowExpand (u\<lparr>autoExpandRef := a, autoCollapseRef := b\<rparr>) = allowExpand u"
  by (simp_all add: hasDesc_def isLoading_def allowExpand_def split: option.splits)

lemma auto_effect_blocked:
  assumes "\<not> allowExpand w"
  shows "auto_effect w =
           (if hasDesc w then w\<lparr>autoExpandRef := None, autoCollapseRef := None, isExpanded := False\<rparr>
            else w\<lparr>autoExpandRef := None, autoCollapseRef := None\<rparr>)"
  using assms by (simp add: auto_effect_def Let_def)

lemma auto_effect_blocked_closed:
  assumes "\<not> allowExpand w"
  shows "\<not> open_w (auto_effect w)" and "autoExpandRef (auto_effect w) = None"
    and "autoCollapseRef (auto_effect w) = None"
  unfolding auto_effect_blocked[OF assms]
  by (simp_all add: open_w_def hasDesc_def)

lemma loading_blocked: "isLoading w \<Longrightarrow> \<not> allowExpand w \<and> \<not> open_w w"
  by (simp add: allowExpand_def open_w_def)

lemma loading_kept:
  "isLoading (handleEnter w) = isLoading w" "isLoading (auto_expand_timer w) = isLoading w"
  by (simp_all add: isLoading_def handleEnter_def auto_expand_timer_def split: option.splits)

text \<open>
  Claim C7 as stated fails in its last part: on a widget that is not loading, has a
  description, and whose \<open>canExpand\<close> prop is false, hover-in opens the widget.
\<close>

theorem hover_expands_despite_ownership:
  "canExpand (props ex_widget_owned) = Some False \<and> \<not> allowExpand ex_widget_owned \<and>
   \<not> isLoading ex_widget_owned \<and> \<not> open_w ex_widget_owned \<and>
   open_w (render (wstep Enter ex_widget_owned))"
  by code_simp

text \<open>
  Claim C7, amended. A widget whose view is in loading state is not open, its
  \<open>allowExpand\<close> is false, and it is not open after hover-in, after the auto-expand timer
  or after the auto effect, which schedules no auto-expand timer. When \<open>canExpand\<close> is
  false, or is absent while \<open>interruptKey\<close> names another notification, \<open>allowExpand\<close>
  is false; then the auto effect leaves the widget collapsed and schedules neither timer.
  Hover-in does not consult \<open>allowExpand\<close>: it opens every widget that is not loading and
  has a description or a button.
\<close>

theorem loading_never_expands:
  "(isLoading w \<longrightarrow>
      \<not> open_w w \<and> \<not> allowExpand w \<and> \<not> open_w (render (wstep Enter w)) \<and>
      \<not> open_w (render (wstep AutoExpandTimer w)) \<and> \<not> open_w (render (wstep AutoEffect w)) \<and>
      autoExpandRef (wstep AutoEffect w) = None) \<and>
   (canExpand (props w) = Some False \<or>
    (canExpand (props w) = None \<and> truthy (interruptKey (props w)) \<and>
     interruptKey (props w) \<noteq> Some (id_p (props w))) \<longrightarrow> \<not> allowExpand w) \<and>
   (\<not> allowExpand w \<longrightarrow>
      \<not> open_w (render (wstep AutoEffect w)) \<and> autoExpandRef (wstep AutoEffect w) = None \<and>
      autoCollapseRef (wstep AutoEffect w) = None) \<and>
   (hasDesc w \<and> \<not> isLoading w \<longrightarrow> open_w (render (wstep Enter w)))"
proof -
  have A: "\<not> open_w w \<and> \<not> allowExpand w \<and> \<not> open_w (render (wstep Enter w)) \<and>
      \<not> open_w (render (wstep AutoExpandTimer w)) \<and> \<not> open_w (render (wstep AutoEffect w)) \<and>
      autoExpandRef (wstep AutoEffect w) = None" if l: "isLoading w"
  proof -
    note b = loading_blocked[OF l]
    from b have na: "\<not> allowExpand w" by simp
    have "\<not> open_w (handleEnter w)" "\<not> open_w (auto_expand_timer w)"
      using l loading_kept[of w] by (simp_all add: open_w_def)
    with b auto_effect_blocked_closed[OF na] show ?thesis by simp
  qed
  have B: "\<not> allowExpand w"
    if "canExpand (props w) = Some False \<or>
    (canExpand (props w) = None \<and> truthy (interruptKey (props w)) \<and>
     interruptKey (props w) \<noteq> Some (id_p (props w)))"
    using that by (auto simp: allowExpand_def)
  have C: "\<not> open_w (render (wstep AutoEffect w)) \<and> autoExpandRef (wstep AutoEffect w) = None \<and>
      autoCollapseRef (wstep AutoEffect w) = None" if "\<not> allowExpand w"
    using auto_effect_blocked_closed[OF that] by simp
  have D: "open_w (render (wstep Enter w))" if "hasDesc w \<and> \<not> isLoading w"
  proof -
    from that have "handleEnter w = w\<lparr>isExpanded := True\<rparr>" by (simp add: handleEnter_def)
    moreover have "open_w (w\<lparr>isExpanded := True\<rparr>)"
      using that by (simp add: open_w_def isLoading_def hasDesc_def)
    ultimately show ?thesis by simp
  qed
  from A B C D show ?thesis by blast
qed

theorem loading_never_expands_witness:
  "\<not> open_w (render (wstep Enter ex_widget_loading)) \<and>
   \<not> open_w (render (wstep AutoExpandTimer ex_widget_loading)) \<and>
   \<not> allowExpand ex_widget_owned \<and>
   autoExpandRef (wstep AutoEffect ex_widget_owned) = None \<and>
   open_w (render (wstep Enter ex_widget_owned))"
proof -
  have a: "isLoading ex_widget_loading" by code_simp
  have b: "canExpand (props ex_widget_owned) = Some False" by code_simp
  have c: "hasDesc ex_widget_owned \<and> \<not> isLoading ex_widget_owned" by code_simp
  from loading_never_expands[of ex_widget_loading] a
  have 1: "\<not> open_w (render (wstep Enter ex_widget_loading)) \<and>
           \<not> open_w (render (wstep AutoExpandTimer ex_widget_loading))" by blast
  from loading_never_expands[of ex_widget_owned] b c
  have 2: "\<not> allowExpand ex_widget_owned \<and> autoExpandRef (wstep AutoEffect ex_widget_owned) = None \<and>
           open_w (render (wstep Enter ex_widget_owned))" by blast
  from 1 2 show ?thesis by blast
qed

end
